theory Spec2Isabelle
  imports Main "HOL-Library.Word" "HOL-Library.Signed_Division"
begin

unbundle bit_operations_syntax

section \<open>The bytecode interpreter of jvm.c\<close>

text \<open>
  The development embeds the function \<open>execute\<close> of \<^verbatim>\<open>src/jvm.c\<close>: the dispatch loop
  over the bytes of a method, the operand stack, the local variables, the array heap and
  the recursive call of \<open>invokestatic\<close>.

  The C program is read as GCC and Clang compile it for x86-64 (\<open>size_t\<close> has 64 bits,
  \<open>int\<close> has 32), with assertions enabled. What the C standard leaves
  implementation-defined is read as the two compilers document it: a conversion to a
  narrower signed type reduces modulo \<open>2 ^ N\<close>, \<open>>>\<close> on a negative value extends the
  sign, \<open><<\<close> acts on the representation. Where the C standard leaves the result of an
  operator undefined, the model gives what the instruction emitted for the operator
  computes: \<open>+\<close>, \<open>-\<close> and \<open>*\<close> on \<open>int\<close> keep the low 32 bits of the result, the
  three shifts take the low five bits of the count (the source applies no mask of its own
  and leaves the count to the host), and the division instruction traps when the quotient
  is not an \<open>int\<close>, which is the error value \<open>Undefined\<close>. An access outside the allocated
  block has no result that the program determines; it is \<open>Undefined\<close> as well. A failed
  \<open>assert\<close> is the other error value.
\<close>

subsection \<open>Values, errors and results\<close>

type_synonym u1 = "8 word"
type_synonym int32 = "32 word"

datatype error = AssertionFailed | Undefined

definition and_then :: "error + 'a \<Rightarrow> ('a \<Rightarrow> error + 'b) \<Rightarrow> error + 'b" where
  "and_then r f = (case r of Inl e \<Rightarrow> Inl e | Inr x \<Rightarrow> f x)"

text \<open>\<open>xs[i]\<close> as an rvalue and \<open>xs[i] = v\<close>, with the index as the integer the C
  expression denotes. An index that wrapped below zero in \<open>size_t\<close> is far beyond every
  block, so a negative index stands for it.\<close>

definition array_read :: "'a list \<Rightarrow> int \<Rightarrow> error + 'a" where
  "array_read xs i =
     (if 0 \<le> i \<and> i < int (length xs) then Inr (xs ! nat i) else Inl Undefined)"

definition array_write :: "'a list \<Rightarrow> int \<Rightarrow> 'a \<Rightarrow> error + 'a list" where
  "array_write xs i v =
     (if 0 \<le> i \<and> i < int (length xs) then Inr (xs[nat i := v]) else Inl Undefined)"

text \<open>The result of an \<open>int\<close> division: its value when an \<open>int32_t\<close> holds it.\<close>

definition int32_result :: "int \<Rightarrow> error + int32" where
  "int32_result i =
     (if - (2 ^ 31) \<le> i \<and> i < 2 ^ 31 then Inr (word_of_int i) else Inl Undefined)"

text \<open>\<open>a + b\<close>, \<open>a - b\<close> and \<open>a * b\<close> on \<open>int\<close>: the low 32 bits of the result.\<close>

definition c_add :: "int32 \<Rightarrow> int32 \<Rightarrow> error + int32" where
  "c_add a b = Inr (a + b)"

definition c_sub :: "int32 \<Rightarrow> int32 \<Rightarrow> error + int32" where
  "c_sub a b = Inr (a - b)"

definition c_mul :: "int32 \<Rightarrow> int32 \<Rightarrow> error + int32" where
  "c_mul a b = Inr (a * b)"

text \<open>\<open>a / b\<close> and \<open>a % b\<close> of C truncate towards zero; both are undefined when \<open>b\<close> is
  zero or the quotient is not representable (the division instruction traps).\<close>

definition c_div :: "int32 \<Rightarrow> int32 \<Rightarrow> error + int32" where
  "c_div a b = (if b = 0 then Inl Undefined else int32_result (sint a sdiv sint b))"

definition c_rem :: "int32 \<Rightarrow> int32 \<Rightarrow> error + int32" where
  "c_rem a b =
     (if b = 0 then Inl Undefined
      else and_then (int32_result (sint a sdiv sint b))
             (\<lambda>q. Inr (word_of_int (sint a smod sint b))))"

text \<open>\<open>a << b\<close> and \<open>a >> b\<close> with the count \<open>b\<close> as it is on the stack. The source
  applies no mask to the count; the shift instructions emitted for a 32-bit operand
  (\<open>shl\<close>, \<open>sar\<close>, \<open>shr\<close>) use the low five bits of the count and ignore the rest.
  \<open>shift_count\<close> is the count they use.\<close>

definition shift_count :: "int32 \<Rightarrow> nat" where
  "shift_count b = unat b mod 32"

definition c_shl :: "int32 \<Rightarrow> int32 \<Rightarrow> error + int32" where
  "c_shl a b = Inr (push_bit (shift_count b) a)"

definition c_shr :: "int32 \<Rightarrow> int32 \<Rightarrow> error + int32" where
  "c_shr a b = Inr (signed_drop_bit (shift_count b) a)"

text \<open>\<open>((uint32_t) a) >> b\<close>, stored back into an \<open>int32_t\<close>.\<close>

definition c_ushr :: "int32 \<Rightarrow> int32 \<Rightarrow> error + int32" where
  "c_ushr a b = Inr (drop_bit (shift_count b) a)"

definition c_and :: "int32 \<Rightarrow> int32 \<Rightarrow> error + int32" where
  "c_and a b = Inr (a AND b)"

definition c_or :: "int32 \<Rightarrow> int32 \<Rightarrow> error + int32" where
  "c_or a b = Inr (a OR b)"

definition c_xor :: "int32 \<Rightarrow> int32 \<Rightarrow> error + int32" where
  "c_xor a b = Inr (a XOR b)"

text \<open>\<open>optional_value_t\<close>. The initialiser \<open>{.has_value = false}\<close> zeroes \<open>value\<close>.\<close>

record optional_value =
  has_value :: bool
  "value" :: int32

subsection \<open>The class view and the heap\<close>

text \<open>Modelled from the spec: \<^verbatim>\<open>read_class.h\<close> is not among the sources. A method carries
  its code buffer (\<open>code_length\<close> is the buffer's length), \<open>max_stack\<close>, \<open>max_locals\<close>
  and a descriptor from which a non-negative parameter count is derived; only the count is
  kept of the descriptor.\<close>

record method_t =
  code :: "u1 list"
  max_stack :: nat
  max_locals :: nat
  descriptor_parameters :: nat

definition code_length :: "method_t \<Rightarrow> nat" where
  "code_length m = length (code m)"

text \<open>Modelled from the spec: \<open>get_number_of_parameters(method)\<close> gives a non-negative
  integer, derived from the descriptor.\<close>

definition get_number_of_parameters :: "method_t \<Rightarrow> nat" where
  "get_number_of_parameters m = descriptor_parameters m"

text \<open>Modelled from the spec: the class view. \<open>constant_pool\<close> holds the 32-bit integer
  payload of each entry; \<open>find_method_from_index\<close> resolves a constant-pool method
  reference to a method.\<close>

record class_file_t =
  constant_pool :: "int32 list"
  find_method_from_index :: "16 word \<Rightarrow> method_t"

text \<open>Modelled from the spec: \<^verbatim>\<open>heap.h\<close> is not among the sources. The heap is an ordered
  sequence of integer arrays, appended to; a reference is the append position, counted from
  zero. \<open>heap_get\<close> of a reference the heap did not produce has no specified result.\<close>

type_synonym heap_t = "int32 list list"

definition heap_add :: "heap_t \<Rightarrow> int32 list \<Rightarrow> int32 \<times> heap_t" where
  "heap_add h arr = (word_of_nat (length h), h @ [arr])"

definition heap_get :: "heap_t \<Rightarrow> int32 \<Rightarrow> error + int32 list" where
  "heap_get h ref = array_read h (sint ref)"

text \<open>A store through the pointer that \<open>heap_get\<close> returned changes the array in the heap.\<close>

definition heap_put :: "heap_t \<Rightarrow> int32 \<Rightarrow> int32 list \<Rightarrow> error + heap_t" where
  "heap_put h ref arr = array_write h (sint ref) arr"

subsection \<open>Opcodes\<close>

text \<open>Modelled from the spec: \<^verbatim>\<open>jvm.h\<close>, which declares the opcode constants, is not among
  the sources. The spec names them as the instructions of the Java Virtual Machine, whose
  opcode bytes are these.\<close>

definition i_nop :: u1 where "i_nop = 0x00"
definition i_iconst_m1 :: u1 where "i_iconst_m1 = 0x02"
definition i_iconst_0 :: u1 where "i_iconst_0 = 0x03"
definition i_iconst_5 :: u1 where "i_iconst_5 = 0x08"
definition i_bipush :: u1 where "i_bipush = 0x10"
definition i_sipush :: u1 where "i_sipush = 0x11"
definition i_ldc :: u1 where "i_ldc = 0x12"
definition i_iload :: u1 where "i_iload = 0x15"
definition i_aload :: u1 where "i_aload = 0x19"
definition i_iload_0 :: u1 where "i_iload_0 = 0x1a"
definition i_iload_3 :: u1 where "i_iload_3 = 0x1d"
definition i_aload_0 :: u1 where "i_aload_0 = 0x2a"
definition i_aload_3 :: u1 where "i_aload_3 = 0x2d"
definition i_iaload :: u1 where "i_iaload = 0x2e"
definition i_istore :: u1 where "i_istore = 0x36"
definition i_astore :: u1 where "i_astore = 0x3a"
definition i_istore_0 :: u1 where "i_istore_0 = 0x3b"
definition i_istore_3 :: u1 where "i_istore_3 = 0x3e"
definition i_astore_0 :: u1 where "i_astore_0 = 0x4b"
definition i_astore_3 :: u1 where "i_astore_3 = 0x4e"
definition i_iastore :: u1 where "i_iastore = 0x4f"
definition i_dup :: u1 where "i_dup = 0x59"
definition i_iadd :: u1 where "i_iadd = 0x60"
definition i_isub :: u1 where "i_isub = 0x64"
definition i_imul :: u1 where "i_imul = 0x68"
definition i_idiv :: u1 where "i_idiv = 0x6c"
definition i_irem :: u1 where "i_irem = 0x70"
definition i_ineg :: u1 where "i_ineg = 0x74"
definition i_ishl :: u1 where "i_ishl = 0x78"
definition i_ishr :: u1 where "i_ishr = 0x7a"
definition i_iushr :: u1 where "i_iushr = 0x7c"
definition i_iand :: u1 where "i_iand = 0x7e"
definition i_ior :: u1 where "i_ior = 0x80"
definition i_ixor :: u1 where "i_ixor = 0x82"
definition i_iinc :: u1 where "i_iinc = 0x84"
definition i_ifeq :: u1 where "i_ifeq = 0x99"
definition i_ifne :: u1 where "i_ifne = 0x9a"
definition i_iflt :: u1 where "i_iflt = 0x9b"
definition i_ifge :: u1 where "i_ifge = 0x9c"
definition i_ifgt :: u1 where "i_ifgt = 0x9d"
definition i_ifle :: u1 where "i_ifle = 0x9e"
definition i_if_icmpeq :: u1 where "i_if_icmpeq = 0x9f"
definition i_if_icmpne :: u1 where "i_if_icmpne = 0xa0"
definition i_if_icmplt :: u1 where "i_if_icmplt = 0xa1"
definition i_if_icmpge :: u1 where "i_if_icmpge = 0xa2"
definition i_if_icmpgt :: u1 where "i_if_icmpgt = 0xa3"
definition i_if_icmple :: u1 where "i_if_icmple = 0xa4"
definition i_goto :: u1 where "i_goto = 0xa7"
definition i_ireturn :: u1 where "i_ireturn = 0xac"
definition i_areturn :: u1 where "i_areturn = 0xb0"
definition i_return :: u1 where "i_return = 0xb1"
definition i_getstatic :: u1 where "i_getstatic = 0xb2"
definition i_invokevirtual :: u1 where "i_invokevirtual = 0xb6"
definition i_invokestatic :: u1 where "i_invokestatic = 0xb8"
definition i_newarray :: u1 where "i_newarray = 0xbc"
definition i_arraylength :: u1 where "i_arraylength = 0xbe"

subsection \<open>The state of one invocation\<close>

text \<open>The variables of \<open>execute\<close> (\<open>pc\<close>, \<open>stack_index\<close>, the block \<open>stack\<close> of
  \<open>max_stack\<close> slots, the caller's block \<open>locals\<close>), the heap shared by all invocations,
  and the integers \<open>invokevirtual\<close> has printed so far. \<open>pc\<close> and \<open>stack_index\<close> are
  \<open>size_t\<close>: natural numbers below \<open>2 ^ 64\<close>, the wrap-around written out where the
  source can reach it.\<close>

record state =
  pc :: nat
  stack_index :: nat
  stack :: "int32 list"
  locals :: "int32 list"
  heap :: heap_t
  printed :: "int32 list"

text \<open>What one pass through the loop body does: it goes on in the loop, it returns from
  \<open>execute\<close>, or (for \<open>invokestatic\<close>) it calls \<open>execute\<close> on a callee with fresh
  locals and resumes afterwards.\<close>

datatype step_result =
  Running state
  | Returned optional_value state
  | Invoke method_t "int32 list" state

definition code_at :: "method_t \<Rightarrow> nat \<Rightarrow> error + u1" where
  "code_at m i = array_read (code m) (int i)"


subsection \<open>Operand decoding\<close>

text \<open>The value of the C expression \<open>(int16_t)(code[pc + 1] << 8) | code[pc + 2]\<close>: the
  cast binds tighter than \<open>|\<close>, so the shifted high byte is narrowed to 16 bits, promoted
  back to \<open>int\<close> and then joined with the low byte.\<close>

definition int16_operand :: "u1 \<Rightarrow> u1 \<Rightarrow> int" where
  "int16_operand hi lo = sint (word_of_int (push_bit 8 (uint hi)) :: 16 word) OR uint lo"

text \<open>\<open>x += (size_t) k\<close> and \<open>x -= k\<close> for a \<open>size_t x\<close> and an \<open>int k\<close>: the sum
  modulo \<open>2 ^ 64\<close>.\<close>

definition size_t_add :: "nat \<Rightarrow> int \<Rightarrow> nat" where
  "size_t_add x k = nat ((int x + k) mod 2 ^ 64)"

text \<open>\<open>pc += (size_t)((int16_t)(code[pc + 1] << 8) | code[pc + 2])\<close>\<close>

definition branch_target :: "nat \<Rightarrow> u1 \<Rightarrow> u1 \<Rightarrow> nat" where
  "branch_target p hi lo = size_t_add p (int16_operand hi lo)"

definition branch :: "method_t \<Rightarrow> state \<Rightarrow> error + nat" where
  "branch m s =
     and_then (code_at m (pc s + 1)) (\<lambda>hi.
     and_then (code_at m (pc s + 2)) (\<lambda>lo.
     Inr (branch_target (pc s) hi lo)))"

subsection \<open>The branches of the dispatch loop\<close>

text \<open>Each definition is one branch of the \<open>if\<close> chain in \<open>execute\<close>, statement by
  statement. Branches of the source that differ only in an operator or a comparison share
  a definition that takes it as an argument.\<close>

definition op_return :: "state \<Rightarrow> error + step_result" where
  "op_return s = Inr (Returned \<lparr>has_value = False, value = 0\<rparr> s)"

text \<open>\<open>ireturn\<close> and \<open>areturn\<close>.\<close>

definition op_value_return :: "state \<Rightarrow> error + step_result" where
  "op_value_return s =
     and_then (array_read (stack s) (int (stack_index s) - 1)) (\<lambda>v.
     Inr (Returned \<lparr>has_value = True, value = v\<rparr>
            (s\<lparr>stack_index := stack_index s - 1, pc := pc s + 1\<rparr>)))"

text \<open>The loop of \<open>invokestatic\<close> that moves the arguments:
  \<open>for (int16_t i = 0; i < parameters; i++)
     local_temp[parameters - i - 1] = stack[stack_index - i - 1];\<close>\<close>

function copy_parameters ::
  "int32 list \<Rightarrow> nat \<Rightarrow> int \<Rightarrow> int \<Rightarrow> int32 list \<Rightarrow> error + int32 list" where
  "copy_parameters stk si parameters i local_temp =
     (if i < parameters then
        (case array_read stk (int si - i - 1) of
           Inl e \<Rightarrow> Inl e
         | Inr v \<Rightarrow>
            (case array_write local_temp (parameters - i - 1) v of
               Inl e \<Rightarrow> Inl e
             | Inr lt \<Rightarrow> copy_parameters stk si parameters (i + 1) lt))
      else Inr local_temp)"
  by pat_completeness auto
termination
  by (relation "measure (\<lambda>(stk, si, parameters, i, local_temp). nat (parameters - i))") auto

text \<open>\<open>invokestatic\<close> up to the recursive call: the callee, its locals, and the caller's
  state with the arguments popped.\<close>

definition op_invokestatic :: "class_file_t \<Rightarrow> method_t \<Rightarrow> state \<Rightarrow> error + step_result" where
  "op_invokestatic cls m s =
     and_then (code_at m (pc s + 1)) (\<lambda>hi.
     and_then (code_at m (pc s + 2)) (\<lambda>lo.
     let pool_index = (word_of_int (int16_operand hi lo) :: 16 word);
         callee = find_method_from_index cls pool_index;
         parameters = sint (word_of_nat (get_number_of_parameters callee) :: 16 word);
         local_temp = replicate (max_locals callee) 0
     in and_then (copy_parameters (stack s) (stack_index s) parameters 0 local_temp) (\<lambda>lt.
        Inr (Invoke callee lt
               (s\<lparr>stack_index := size_t_add (stack_index s) (- parameters)\<rparr>)))))"

text \<open>\<open>invokestatic\<close> after the callee has returned \<open>val\<close>, leaving the heap \<open>h\<close> and
  the output \<open>out\<close>.\<close>

definition invoke_return ::
  "state \<Rightarrow> optional_value \<Rightarrow> heap_t \<Rightarrow> int32 list \<Rightarrow> error + state" where
  "invoke_return s val h out =
     (if has_value val then
        and_then (array_write (stack s) (int (stack_index s)) (value val)) (\<lambda>stk.
        Inr (s\<lparr>stack := stk, stack_index := stack_index s + 1, pc := pc s + 3,
               heap := h, printed := out\<rparr>))
      else Inr (s\<lparr>pc := pc s + 3, heap := h, printed := out\<rparr>))"

definition op_bipush :: "method_t \<Rightarrow> state \<Rightarrow> error + step_result" where
  "op_bipush m s =
     and_then (code_at m (pc s + 1)) (\<lambda>b.
     and_then (array_write (stack s) (int (stack_index s)) (scast b)) (\<lambda>stk.
     Inr (Running (s\<lparr>stack := stk, pc := pc s + 2, stack_index := stack_index s + 1\<rparr>))))"

text \<open>\<open>iadd\<close>, \<open>isub\<close>, \<open>imul\<close>, the shifts and the bitwise operations.\<close>

definition op_binary ::
  "(int32 \<Rightarrow> int32 \<Rightarrow> error + int32) \<Rightarrow> state \<Rightarrow> error + step_result" where
  "op_binary f s =
     (if 2 \<le> stack_index s then
        and_then (array_read (stack s) (int (stack_index s) - 2)) (\<lambda>a.
        and_then (array_read (stack s) (int (stack_index s) - 1)) (\<lambda>b.
        and_then (f a b) (\<lambda>c.
        and_then (array_write (stack s) (int (stack_index s) - 2) c) (\<lambda>stk.
        Inr (Running (s\<lparr>stack := stk, stack_index := stack_index s - 1,
                         pc := pc s + 1\<rparr>))))))
      else Inl AssertionFailed)"

text \<open>\<open>idiv\<close> and \<open>irem\<close>: the second assertion reads the divisor.\<close>

definition op_divide ::
  "(int32 \<Rightarrow> int32 \<Rightarrow> error + int32) \<Rightarrow> state \<Rightarrow> error + step_result" where
  "op_divide f s =
     (if 2 \<le> stack_index s then
        and_then (array_read (stack s) (int (stack_index s) - 1)) (\<lambda>b.
        if b \<noteq> 0 then
          and_then (array_read (stack s) (int (stack_index s) - 2)) (\<lambda>a.
          and_then (f a b) (\<lambda>c.
          and_then (array_write (stack s) (int (stack_index s) - 2) c) (\<lambda>stk.
          Inr (Running (s\<lparr>stack := stk, stack_index := stack_index s - 1,
                           pc := pc s + 1\<rparr>)))))
        else Inl AssertionFailed)
      else Inl AssertionFailed)"

text \<open>\<open>stack[stack_index - 1] *= -1\<close>\<close>

definition op_ineg :: "state \<Rightarrow> error + step_result" where
  "op_ineg s =
     and_then (array_read (stack s) (int (stack_index s) - 1)) (\<lambda>a.
     and_then (c_mul a (- 1)) (\<lambda>c.
     and_then (array_write (stack s) (int (stack_index s) - 1) c) (\<lambda>stk.
     Inr (Running (s\<lparr>stack := stk, pc := pc s + 1\<rparr>)))))"

definition op_getstatic :: "state \<Rightarrow> error + step_result" where
  "op_getstatic s = Inr (Running (s\<lparr>pc := pc s + 3\<rparr>))"

definition op_invokevirtual :: "state \<Rightarrow> error + step_result" where
  "op_invokevirtual s =
     (if 0 < stack_index s then
        and_then (array_read (stack s) (int (stack_index s - 1))) (\<lambda>v.
        Inr (Running (s\<lparr>stack_index := stack_index s - 1, printed := printed s @ [v],
                         pc := pc s + 3\<rparr>)))
      else Inl AssertionFailed)"

text \<open>\<open>iconst_m1 .. iconst_5\<close>: \<open>stack[stack_index] = instruction - i_iconst_0\<close>\<close>

definition op_iconst :: "u1 \<Rightarrow> state \<Rightarrow> error + step_result" where
  "op_iconst instruction s =
     and_then (array_write (stack s) (int (stack_index s))
                 (word_of_int (uint instruction - uint i_iconst_0))) (\<lambda>stk.
     Inr (Running (s\<lparr>stack := stk, stack_index := stack_index s + 1, pc := pc s + 1\<rparr>)))"

text \<open>\<open>int16_t b_concat = ((code[pc + 1] << 8) | code[pc + 2])\<close>, then widened.\<close>

definition op_sipush :: "method_t \<Rightarrow> state \<Rightarrow> error + step_result" where
  "op_sipush m s =
     and_then (code_at m (pc s + 1)) (\<lambda>hi.
     and_then (code_at m (pc s + 2)) (\<lambda>lo.
     let b_concat = (word_of_int (push_bit 8 (uint hi) OR uint lo) :: 16 word)
     in and_then (array_write (stack s) (int (stack_index s)) (scast b_concat)) (\<lambda>stk.
        Inr (Running (s\<lparr>stack := stk, pc := pc s + 3,
                         stack_index := stack_index s + 1\<rparr>)))))"

text \<open>\<open>iload\<close> and \<open>aload\<close>.\<close>

definition op_load :: "method_t \<Rightarrow> state \<Rightarrow> error + step_result" where
  "op_load m s =
     and_then (code_at m (pc s + 1)) (\<lambda>idx.
     and_then (array_read (locals s) (uint idx)) (\<lambda>v.
     and_then (array_write (stack s) (int (stack_index s)) v) (\<lambda>stk.
     Inr (Running (s\<lparr>stack := stk, pc := pc s + 2, stack_index := stack_index s + 1\<rparr>)))))"

text \<open>\<open>istore\<close> and \<open>astore\<close>.\<close>

definition op_store :: "method_t \<Rightarrow> state \<Rightarrow> error + step_result" where
  "op_store m s =
     and_then (code_at m (pc s + 1)) (\<lambda>idx.
     and_then (array_read (stack s) (int (stack_index s) - 1)) (\<lambda>v.
     and_then (array_write (locals s) (uint idx) v) (\<lambda>ls.
     Inr (Running (s\<lparr>locals := ls, stack_index := stack_index s - 1, pc := pc s + 2\<rparr>)))))"

text \<open>\<open>locals[code[pc + 1]] += (int8_t) code[pc + 2]\<close>\<close>

definition op_iinc :: "method_t \<Rightarrow> state \<Rightarrow> error + step_result" where
  "op_iinc m s =
     and_then (code_at m (pc s + 1)) (\<lambda>idx.
     and_then (code_at m (pc s + 2)) (\<lambda>b.
     and_then (array_read (locals s) (uint idx)) (\<lambda>v.
     and_then (c_add v (scast b)) (\<lambda>c.
     and_then (array_write (locals s) (uint idx) c) (\<lambda>ls.
     Inr (Running (s\<lparr>locals := ls, pc := pc s + 3\<rparr>)))))))"

text \<open>\<open>iload_0 .. iload_3\<close> and \<open>aload_0 .. aload_3\<close>, with \<open>n = instruction - base\<close>.\<close>

definition op_load_n :: "int \<Rightarrow> state \<Rightarrow> error + step_result" where
  "op_load_n n s =
     and_then (array_read (locals s) n) (\<lambda>v.
     and_then (array_write (stack s) (int (stack_index s)) v) (\<lambda>stk.
     Inr (Running (s\<lparr>stack := stk, stack_index := stack_index s + 1, pc := pc s + 1\<rparr>))))"

text \<open>\<open>istore_0 .. istore_3\<close> and \<open>astore_0 .. astore_3\<close>.\<close>

definition op_store_n :: "int \<Rightarrow> state \<Rightarrow> error + step_result" where
  "op_store_n n s =
     and_then (array_read (stack s) (int (stack_index s) - 1)) (\<lambda>v.
     and_then (array_write (locals s) n v) (\<lambda>ls.
     Inr (Running (s\<lparr>locals := ls, stack_index := stack_index s - 1, pc := pc s + 1\<rparr>))))"

definition op_ldc :: "class_file_t \<Rightarrow> method_t \<Rightarrow> state \<Rightarrow> error + step_result" where
  "op_ldc cls m s =
     and_then (code_at m (pc s + 1)) (\<lambda>idx.
     and_then (array_read (constant_pool cls) (uint idx - 1)) (\<lambda>v.
     and_then (array_write (stack s) (int (stack_index s)) v) (\<lambda>stk.
     Inr (Running (s\<lparr>stack := stk, stack_index := stack_index s + 1, pc := pc s + 2\<rparr>)))))"

text \<open>\<open>ifeq .. ifle\<close>: the comparison of the top of the stack with zero is the argument.\<close>

definition op_if :: "(int32 \<Rightarrow> bool) \<Rightarrow> method_t \<Rightarrow> state \<Rightarrow> error + step_result" where
  "op_if holds m s =
     (if 0 < stack_index s then
        and_then (array_read (stack s) (int (stack_index s) - 1)) (\<lambda>a.
        if holds a then
          and_then (branch m s) (\<lambda>target.
          Inr (Running (s\<lparr>pc := target, stack_index := stack_index s - 1\<rparr>)))
        else Inr (Running (s\<lparr>pc := pc s + 3, stack_index := stack_index s - 1\<rparr>)))
      else Inl AssertionFailed)"

text \<open>\<open>if_icmpeq .. if_icmple\<close>\<close>

definition op_if_icmp ::
  "(int32 \<Rightarrow> int32 \<Rightarrow> bool) \<Rightarrow> method_t \<Rightarrow> state \<Rightarrow> error + step_result" where
  "op_if_icmp holds m s =
     (if 2 \<le> stack_index s then
        and_then (array_read (stack s) (int (stack_index s) - 2)) (\<lambda>a.
        and_then (array_read (stack s) (int (stack_index s) - 1)) (\<lambda>b.
        if holds a b then
          and_then (branch m s) (\<lambda>target.
          Inr (Running (s\<lparr>pc := target, stack_index := stack_index s - 2\<rparr>)))
        else Inr (Running (s\<lparr>pc := pc s + 3, stack_index := stack_index s - 2\<rparr>))))
      else Inl AssertionFailed)"

definition op_goto :: "method_t \<Rightarrow> state \<Rightarrow> error + step_result" where
  "op_goto m s = and_then (branch m s) (\<lambda>target. Inr (Running (s\<lparr>pc := target\<rparr>)))"

definition op_nop :: "state \<Rightarrow> error + step_result" where
  "op_nop s = Inr (Running (s\<lparr>pc := pc s + 1\<rparr>))"

definition op_dup :: "state \<Rightarrow> error + step_result" where
  "op_dup s =
     and_then (array_read (stack s) (int (stack_index s) - 1)) (\<lambda>v.
     and_then (array_write (stack s) (int (stack_index s)) v) (\<lambda>stk.
     Inr (Running (s\<lparr>stack := stk, stack_index := stack_index s + 1, pc := pc s + 1\<rparr>))))"

text \<open>\<open>calloc(sizeof(int32_t), count)\<close> with \<open>count\<close> an \<open>int\<close>: a zeroed block of
  \<open>count\<close> elements. A negative count converts to a \<open>size_t\<close> no allocation can serve and
  a zero count gives no element either: the empty block stands for both, and every access
  to it is undefined. An allocation that can be served is taken to succeed.\<close>

definition calloc_int32 :: "int \<Rightarrow> int32 list" where
  "calloc_int32 count = replicate (nat count) 0"

text \<open>\<open>for (int32_t i = 1; i < stack[stack_index - 1] + 1; i++) arr[i] = 0;\<close>\<close>

function zero_elements :: "int32 list \<Rightarrow> int \<Rightarrow> int \<Rightarrow> error + int32 list" where
  "zero_elements arr i bound =
     (if i < bound then
        (case array_write arr i 0 of
           Inl e \<Rightarrow> Inl e
         | Inr arr' \<Rightarrow> zero_elements arr' (i + 1) bound)
      else Inr arr)"
  by pat_completeness auto
termination
  by (relation "measure (\<lambda>(arr, i, bound). nat (bound - i))") auto

definition op_newarray :: "state \<Rightarrow> error + step_result" where
  "op_newarray s =
     and_then (array_read (stack s) (int (stack_index s) - 1)) (\<lambda>n.
     and_then (c_add n 1) (\<lambda>count.
     and_then (zero_elements (calloc_int32 (sint count)) 1 (sint count)) (\<lambda>arr0.
     and_then (array_write arr0 0 n) (\<lambda>arr.
     let (ref, h) = heap_add (heap s) arr
     in and_then (array_write (stack s) (int (stack_index s) - 1) ref) (\<lambda>stk.
        Inr (Running (s\<lparr>stack := stk, heap := h, pc := pc s + 2\<rparr>)))))))"

definition op_arraylength :: "state \<Rightarrow> error + step_result" where
  "op_arraylength s =
     and_then (array_read (stack s) (int (stack_index s) - 1)) (\<lambda>ref.
     and_then (heap_get (heap s) ref) (\<lambda>arr.
     and_then (array_read arr 0) (\<lambda>n.
     and_then (array_write (stack s) (int (stack_index s) - 1) n) (\<lambda>stk.
     Inr (Running (s\<lparr>stack := stk, pc := pc s + 1\<rparr>))))))"

text \<open>\<open>arr[stack[stack_index - 2] + 1] = stack[stack_index - 1]\<close>\<close>

definition op_iastore :: "state \<Rightarrow> error + step_result" where
  "op_iastore s =
     and_then (array_read (stack s) (int (stack_index s) - 3)) (\<lambda>ref.
     and_then (heap_get (heap s) ref) (\<lambda>arr.
     and_then (array_read (stack s) (int (stack_index s) - 2)) (\<lambda>i.
     and_then (c_add i 1) (\<lambda>idx.
     and_then (array_read (stack s) (int (stack_index s) - 1)) (\<lambda>v.
     and_then (array_write arr (sint idx) v) (\<lambda>arr'.
     and_then (heap_put (heap s) ref arr') (\<lambda>h.
     Inr (Running (s\<lparr>heap := h, stack_index := stack_index s - 3,
                      pc := pc s + 1\<rparr>)))))))))"

text \<open>\<open>stack[stack_index - 2] = arr[stack[stack_index - 1] + 1]\<close>\<close>

definition op_iaload :: "state \<Rightarrow> error + step_result" where
  "op_iaload s =
     and_then (array_read (stack s) (int (stack_index s) - 2)) (\<lambda>ref.
     and_then (heap_get (heap s) ref) (\<lambda>arr.
     and_then (array_read (stack s) (int (stack_index s) - 1)) (\<lambda>i.
     and_then (c_add i 1) (\<lambda>idx.
     and_then (array_read arr (sint idx)) (\<lambda>v.
     and_then (array_write (stack s) (int (stack_index s) - 2) v) (\<lambda>stk.
     Inr (Running (s\<lparr>stack := stk, stack_index := stack_index s - 1,
                      pc := pc s + 1\<rparr>))))))))"

subsection \<open>The dispatch loop\<close>

text \<open>The \<open>if\<close> chain of the loop body, in the order of the source. It has no final
  \<open>else\<close>: a byte that no branch matches leaves every variable as it was.\<close>

definition step :: "class_file_t \<Rightarrow> method_t \<Rightarrow> state \<Rightarrow> error + step_result" where
  "step cls m s =
     (let instruction = code m ! pc s in
      if instruction = i_return then op_return s
      else if instruction = i_ireturn then op_value_return s
      else if instruction = i_invokestatic then op_invokestatic cls m s
      else if instruction = i_bipush then op_bipush m s
      else if instruction = i_iadd then op_binary c_add s
      else if instruction = i_isub then op_binary c_sub s
      else if instruction = i_imul then op_binary c_mul s
      else if instruction = i_idiv then op_divide c_div s
      else if instruction = i_irem then op_divide c_rem s
      else if instruction = i_ineg then op_ineg s
      else if instruction = i_ishl then op_binary c_shl s
      else if instruction = i_ishr then op_binary c_shr s
      else if instruction = i_iushr then op_binary c_ushr s
      else if instruction = i_iand then op_binary c_and s
      else if instruction = i_ior then op_binary c_or s
      else if instruction = i_ixor then op_binary c_xor s
      else if instruction = i_getstatic then op_getstatic s
      else if instruction = i_invokevirtual then op_invokevirtual s
      else if i_iconst_m1 \<le> instruction \<and> instruction \<le> i_iconst_5
        then op_iconst instruction s
      else if instruction = i_sipush then op_sipush m s
      else if instruction = i_iload then op_load m s
      else if instruction = i_istore then op_store m s
      else if instruction = i_iinc then op_iinc m s
      else if i_iload_0 \<le> instruction \<and> instruction \<le> i_iload_3
        then op_load_n (uint instruction - uint i_iload_0) s
      else if i_istore_0 \<le> instruction \<and> instruction \<le> i_istore_3
        then op_store_n (uint instruction - uint i_istore_0) s
      else if instruction = i_ldc then op_ldc cls m s
      else if instruction = i_ifeq then op_if (\<lambda>a. a = 0) m s
      else if instruction = i_ifne then op_if (\<lambda>a. a \<noteq> 0) m s
      else if instruction = i_iflt then op_if (\<lambda>a. a <s 0) m s
      else if instruction = i_ifge then op_if (\<lambda>a. 0 \<le>s a) m s
      else if instruction = i_ifgt then op_if (\<lambda>a. 0 <s a) m s
      else if instruction = i_ifle then op_if (\<lambda>a. a \<le>s 0) m s
      else if instruction = i_if_icmpeq then op_if_icmp (\<lambda>a b. a = b) m s
      else if instruction = i_if_icmpne then op_if_icmp (\<lambda>a b. a \<noteq> b) m s
      else if instruction = i_if_icmplt then op_if_icmp (\<lambda>a b. a <s b) m s
      else if instruction = i_if_icmpge then op_if_icmp (\<lambda>a b. b \<le>s a) m s
      else if instruction = i_if_icmpgt then op_if_icmp (\<lambda>a b. b <s a) m s
      else if instruction = i_if_icmple then op_if_icmp (\<lambda>a b. a \<le>s b) m s
      else if instruction = i_goto then op_goto m s
      else if instruction = i_nop then op_nop s
      else if instruction = i_dup then op_dup s
      else if instruction = i_newarray then op_newarray s
      else if instruction = i_arraylength then op_arraylength s
      else if instruction = i_areturn then op_value_return s
      else if instruction = i_iastore then op_iastore s
      else if instruction = i_iaload then op_iaload s
      else if instruction = i_aload then op_load m s
      else if instruction = i_astore then op_store m s
      else if instruction \<le> i_aload_3 \<and> i_aload_0 \<le> instruction
        then op_load_n (uint instruction - uint i_aload_0) s
      else if instruction \<le> i_astore_3 \<and> i_astore_0 \<le> instruction
        then op_store_n (uint instruction - uint i_astore_0) s
      else Inr (Running s))"

text \<open>The state in which \<open>execute\<close> enters its loop: \<open>pc = 0\<close>, \<open>stack_index = 0\<close>, a
  zeroed stack of \<open>max_stack\<close> slots.\<close>

definition initial_state :: "method_t \<Rightarrow> int32 list \<Rightarrow> heap_t \<Rightarrow> int32 list \<Rightarrow> state" where
  "initial_state m ls h out =
     \<lparr>pc = 0, stack_index = 0, stack = replicate (max_stack m) 0, locals = ls,
      heap = h, printed = out\<rparr>"

text \<open>The loop \<open>while (pc < method_code.code_length)\<close> from a given state, with the
  recursive call of \<open>invokestatic\<close>. A method may loop or recurse for ever, so the function
  takes fuel: each test of the loop condition uses one unit, a callee runs on what the
  caller has left, and \<open>None\<close> says that the fuel ran out before \<open>execute\<close> returned. The
  result of a return is the optional value with the heap and the output left behind.\<close>

fun execute_loop ::
  "nat \<Rightarrow> class_file_t \<Rightarrow> method_t \<Rightarrow> state
     \<Rightarrow> (error + optional_value \<times> heap_t \<times> int32 list) option" where
  "execute_loop 0 cls m s = None"
| "execute_loop (Suc n) cls m s =
     (if pc s < code_length m then
        (case step cls m s of
           Inl e \<Rightarrow> Some (Inl e)
         | Inr (Running s') \<Rightarrow> execute_loop n cls m s'
         | Inr (Returned val s') \<Rightarrow> Some (Inr (val, heap s', printed s'))
         | Inr (Invoke callee local_temp s') \<Rightarrow>
            (case execute_loop n cls callee
                    (initial_state callee local_temp (heap s') (printed s')) of
               None \<Rightarrow> None
             | Some (Inl e) \<Rightarrow> Some (Inl e)
             | Some (Inr (val, h, out)) \<Rightarrow>
                (case invoke_return s' val h out of
                   Inl e \<Rightarrow> Some (Inl e)
                 | Inr s'' \<Rightarrow> execute_loop n cls m s'')))
      else Some (Inr (\<lparr>has_value = False, value = 0\<rparr>, heap s, printed s)))"

definition execute ::
  "nat \<Rightarrow> method_t \<Rightarrow> int32 list \<Rightarrow> class_file_t \<Rightarrow> heap_t \<Rightarrow> int32 list
     \<Rightarrow> (error + optional_value \<times> heap_t \<times> int32 list) option" where
  "execute fuel m ls cls h out = execute_loop fuel cls m (initial_state m ls h out)"

text \<open>A result of the loop body that does not return from \<open>execute\<close>.\<close>

definition goes_on :: "error + step_result \<Rightarrow> bool" where
  "goes_on r = (case r of Inr (Returned val s') \<Rightarrow> False | _ \<Rightarrow> True)"

subsection \<open>Sample class files\<close>

text \<open>Small methods on which the properties below are evaluated. \<open>first_parameter\<close>
  is \<open>static int f(int a, int b) { return a; }\<close>: \<open>iload_0; ireturn\<close>.\<close>

definition first_parameter :: method_t where
  "first_parameter =
     \<lparr>code = [i_iload_0, i_ireturn], max_stack = 1, max_locals = 2,
      descriptor_parameters = 2\<rparr>"

definition example_class :: class_file_t where
  "example_class = \<lparr>constant_pool = [], find_method_from_index = (\<lambda>i. first_parameter)\<rparr>"

definition nop_method :: method_t where
  "nop_method =
     \<lparr>code = [i_nop], max_stack = 0, max_locals = 0, descriptor_parameters = 0\<rparr>"

definition return_method :: method_t where
  "return_method =
     \<lparr>code = [i_return], max_stack = 0, max_locals = 0, descriptor_parameters = 0\<rparr>"

definition empty_state :: state where
  "empty_state = \<lparr>pc = 0, stack_index = 0, stack = [], locals = [], heap = [], printed = []\<rparr>"

text \<open>A state whose stack of two slots holds \<open>a\<close> below \<open>b\<close>.\<close>

definition two_on_stack :: "int32 \<Rightarrow> int32 \<Rightarrow> state" where
  "two_on_stack a b =
     \<lparr>pc = 0, stack_index = 2, stack = [a, b], locals = [], heap = [], printed = []\<rparr>"

definition one_opcode :: "u1 \<Rightarrow> method_t" where
  "one_opcode instruction =
     \<lparr>code = [instruction], max_stack = 2, max_locals = 0, descriptor_parameters = 0\<rparr>"

subsection \<open>The spec's decoder and branch predicates\<close>

text \<open>The \<open>s16\<close> of the spec: the two bytes as a big-endian 16-bit value, read as two's
  complement.\<close>

definition spec_s16 :: "u1 \<Rightarrow> u1 \<Rightarrow> int" where
  "spec_s16 hi lo =
     (let u = uint hi * 256 + uint lo in if u < 32768 then u else u - 65536)"

text \<open>The predicate against zero that the spec's table gives \<open>ifeq\<close>, \<open>ifne\<close>,
  \<open>iflt\<close>, \<open>ifge\<close>, \<open>ifgt\<close> and \<open>ifle\<close>, on the signed value popped.\<close>

definition spec_if_predicate :: "u1 \<Rightarrow> int \<Rightarrow> bool" where
  "spec_if_predicate instruction a =
     (if instruction = i_ifeq then a = 0
      else if instruction = i_ifne then a \<noteq> 0
      else if instruction = i_iflt then a < 0
      else if instruction = i_ifge then 0 \<le> a
      else if instruction = i_ifgt then 0 < a
      else a \<le> 0)"

text \<open>\<open>nop; nop; nop; ifne -3; goto -6\<close>: a conditional and an unconditional branch, both
  back to the start.\<close>

definition backward_branch :: method_t where
  "backward_branch =
     \<lparr>code = [i_nop, i_nop, i_nop, i_ifne, 0xff, 0xfd, i_goto, 0xff, 0xfa], max_stack = 2,
      max_locals = 0, descriptor_parameters = 0\<rparr>"

subsection \<open>The instructions the spec supports\<close>

text \<open>The opcode bytes of the instructions that the spec's table lists.\<close>

definition supported :: "u1 \<Rightarrow> bool" where
  "supported instruction =
     (instruction \<in> {i_nop, i_bipush, i_sipush, i_ldc, i_iload, i_aload, i_istore, i_astore,
        i_iinc, i_iadd, i_isub, i_imul, i_idiv, i_irem, i_ineg, i_iand, i_ior, i_ixor,
        i_ishl, i_ishr, i_iushr, i_dup, i_goto, i_ifeq, i_ifne, i_iflt, i_ifge, i_ifgt,
        i_ifle, i_if_icmpeq, i_if_icmpne, i_if_icmplt, i_if_icmpge, i_if_icmpgt,
        i_if_icmple, i_invokestatic, i_ireturn, i_areturn, i_return, i_getstatic,
        i_invokevirtual, i_newarray, i_arraylength, i_iaload, i_iastore}
      \<or> (i_iconst_m1 \<le> instruction \<and> instruction \<le> i_iconst_5)
      \<or> (i_iload_0 \<le> instruction \<and> instruction \<le> i_iload_3)
      \<or> (i_aload_0 \<le> instruction \<and> instruction \<le> i_aload_3)
      \<or> (i_istore_0 \<le> instruction \<and> instruction \<le> i_istore_3)
      \<or> (i_astore_0 \<le> instruction \<and> instruction \<le> i_astore_3))"

subsection \<open>Operand-stack depth\<close>

text \<open>The frame of a method in a state: the stack block has \<open>max_stack\<close> slots and the
  depth \<open>stack_index\<close> does not exceed it.\<close>

definition frame_ok :: "method_t \<Rightarrow> state \<Rightarrow> bool" where
  "frame_ok m s \<longleftrightarrow> length (stack s) = max_stack m \<and> stack_index s \<le> max_stack m"

text \<open>The change of depth that the spec's table (section 4.3) gives each instruction that
  goes on in the frame; \<open>invokestatic\<close> (whose change depends on the callee) and the three
  returns have no entry.\<close>

definition spec_stack_delta :: "u1 \<Rightarrow> int option" where
  "spec_stack_delta instruction =
     (if i_iconst_m1 \<le> instruction \<and> instruction \<le> i_iconst_5 then Some 1
      else if instruction \<in> {i_bipush, i_sipush, i_ldc} then Some 1
      else if instruction \<in> {i_iload, i_aload} then Some 1
      else if (i_iload_0 \<le> instruction \<and> instruction \<le> i_iload_3)
            \<or> (i_aload_0 \<le> instruction \<and> instruction \<le> i_aload_3) then Some 1
      else if instruction \<in> {i_istore, i_astore} then Some (- 1)
      else if (i_istore_0 \<le> instruction \<and> instruction \<le> i_istore_3)
            \<or> (i_astore_0 \<le> instruction \<and> instruction \<le> i_astore_3) then Some (- 1)
      else if instruction = i_iinc then Some 0
      else if instruction \<in> {i_iadd, i_isub, i_imul, i_idiv, i_irem} then Some (- 1)
      else if instruction = i_ineg then Some 0
      else if instruction \<in> {i_iand, i_ior, i_ixor} then Some (- 1)
      else if instruction \<in> {i_ishl, i_ishr, i_iushr} then Some (- 1)
      else if instruction = i_dup then Some 1
      else if instruction = i_nop then Some 0
      else if instruction = i_goto then Some 0
      else if instruction \<in> {i_ifeq, i_ifne, i_iflt, i_ifge, i_ifgt, i_ifle} then Some (- 1)
      else if instruction \<in> {i_if_icmpeq, i_if_icmpne, i_if_icmplt, i_if_icmpge,
                               i_if_icmpgt, i_if_icmple} then Some (- 2)
      else if instruction = i_getstatic then Some 0
      else if instruction = i_invokevirtual then Some (- 1)
      else if instruction = i_newarray then Some 0
      else if instruction = i_arraylength then Some 0
      else if instruction = i_iaload then Some (- 1)
      else if instruction = i_iastore then Some (- 3)
      else None)"

text \<open>A result of the loop body that goes on with the same stack block, the depth
  changed by \<open>d\<close> and still within the block.\<close>

definition depth_change :: "state \<Rightarrow> int \<Rightarrow> error + step_result \<Rightarrow> bool" where
  "depth_change s d r =
     (case r of
        Inr (Running s') \<Rightarrow>
          length (stack s') = length (stack s)
          \<and> int (stack_index s') = int (stack_index s) + d
          \<and> stack_index s' \<le> length (stack s')
      | _ \<Rightarrow> True)"

text \<open>\<open>iconst_1; iconst_2; invokestatic #1; ireturn\<close>: a call of \<open>first_parameter\<close> with
  the arguments 1 and 2.\<close>

definition call_first_parameter :: method_t where
  "call_first_parameter =
     \<lparr>code = [i_iconst_0 + 1, i_iconst_0 + 2, i_invokestatic, 0x00, 0x01, i_ireturn],
      max_stack = 2, max_locals = 0, descriptor_parameters = 0\<rparr>"

subsection \<open>Sequences of array allocations\<close>

text \<open>\<open>newarray\<close> executed once for each length of a list, the length put on top of the
  stack before each execution: the references that the executions leave on top of the
  stack, in order, and the state after the last.\<close>

fun newarray_sequence :: "state \<Rightarrow> int32 list \<Rightarrow> error + int32 list \<times> state" where
  "newarray_sequence s [] = Inr ([], s)"
| "newarray_sequence s (n # ns) =
     (case op_newarray (s\<lparr>stack := (stack s)[stack_index s - 1 := n]\<rparr>) of
        Inl e \<Rightarrow> Inl e
      | Inr (Running s') \<Rightarrow>
          (case newarray_sequence s' ns of
             Inl e \<Rightarrow> Inl e
           | Inr (rs, s'') \<Rightarrow> Inr (stack s' ! (stack_index s' - 1) # rs, s''))
      | Inr _ \<Rightarrow> Inl Undefined)"

text \<open>The block that \<open>newarray\<close> builds for the length \<open>n\<close>: \<open>n\<close> at index 0, then \<open>n\<close>
  zeroed elements.\<close>

definition new_int_array :: "int32 \<Rightarrow> int32 list" where
  "new_int_array n = n # replicate (nat (sint n)) 0"

text \<open>A frame whose stack holds exactly the given values, over the given heap.\<close>

definition frame_with :: "int32 list \<Rightarrow> heap_t \<Rightarrow> state" where
  "frame_with xs h =
     \<lparr>pc = 0, stack_index = length xs, stack = xs, locals = [], heap = h, printed = []\<rparr>"

subsection \<open>Well-formed instructions\<close>

text \<open>The number of operand bytes that follow each opcode byte: the width that the
  spec's table gives the instruction, less one.\<close>

definition operand_bytes :: "u1 \<Rightarrow> nat" where
  "operand_bytes instruction =
     (if instruction \<in> {i_bipush, i_ldc, i_iload, i_aload, i_istore, i_astore, i_newarray}
        then 1
      else if instruction \<in> {i_sipush, i_iinc, i_goto, i_ifeq, i_ifne, i_iflt, i_ifge, i_ifgt,
                               i_ifle, i_if_icmpeq, i_if_icmpne, i_if_icmplt, i_if_icmpge,
                               i_if_icmpgt, i_if_icmple, i_invokestatic, i_getstatic,
                               i_invokevirtual}
        then 2
      else 0)"

text \<open>The number of operands that the spec's table has each instruction take from the
  stack (\<open>invokestatic\<close>, whose number is the callee's, apart).\<close>

definition spec_pops :: "u1 \<Rightarrow> nat" where
  "spec_pops instruction =
     (if instruction \<in> {i_istore, i_astore, i_ineg, i_dup, i_ifeq, i_ifne, i_iflt, i_ifge,
                          i_ifgt, i_ifle, i_invokevirtual, i_newarray, i_arraylength,
                          i_ireturn, i_areturn}
         \<or> (i_istore_0 \<le> instruction \<and> instruction \<le> i_istore_3)
         \<or> (i_astore_0 \<le> instruction \<and> instruction \<le> i_astore_3)
        then 1
      else if instruction \<in> {i_iadd, i_isub, i_imul, i_idiv, i_irem, i_iand, i_ior, i_ixor,
                               i_ishl, i_ishr, i_iushr, i_if_icmpeq, i_if_icmpne,
                               i_if_icmplt, i_if_icmpge, i_if_icmpgt, i_if_icmple, i_iaload}
        then 2
      else if instruction = i_iastore then 3
      else 0)"

text \<open>The local variable that the instruction at \<open>pc\<close> reads or writes, if any.\<close>

definition local_slot :: "method_t \<Rightarrow> state \<Rightarrow> nat option" where
  "local_slot m s =
     (let instruction = code m ! pc s in
      if instruction \<in> {i_iload, i_aload, i_istore, i_astore, i_iinc}
        then Some (unat (code m ! (pc s + 1)))
      else if i_iload_0 \<le> instruction \<and> instruction \<le> i_iload_3
        then Some (unat instruction - unat i_iload_0)
      else if i_aload_0 \<le> instruction \<and> instruction \<le> i_aload_3
        then Some (unat instruction - unat i_aload_0)
      else if i_istore_0 \<le> instruction \<and> instruction \<le> i_istore_3
        then Some (unat instruction - unat i_istore_0)
      else if i_astore_0 \<le> instruction \<and> instruction \<le> i_astore_3
        then Some (unat instruction - unat i_astore_0)
      else None)"

text \<open>A reference that the heap has returned, to an array that holds its length slot.\<close>

definition valid_reference :: "heap_t \<Rightarrow> int32 \<Rightarrow> bool" where
  "valid_reference h r \<longleftrightarrow>
     0 \<le> sint r \<and> sint r < int (length h) \<and> h ! nat (sint r) \<noteq> []"

text \<open>An index \<open>i\<close> in \<open>[0, L)\<close> of the array at a valid reference, where \<open>L\<close> is the
  length that the array holds at index 0, followed by its \<open>L\<close> elements.\<close>

definition valid_element :: "heap_t \<Rightarrow> int32 \<Rightarrow> int32 \<Rightarrow> bool" where
  "valid_element h r i \<longleftrightarrow>
     valid_reference h r
     \<and> 0 \<le> sint i \<and> sint i < sint (h ! nat (sint r) ! 0)
     \<and> sint (h ! nat (sint r) ! 0) < int (length (h ! nat (sint r)))"

text \<open>What the spec asks of well-formed bytecode, at the instruction that a frame is
  about to execute: the instruction lies within the code; its operands are on the stack
  and its result has room there (\<open>max_stack\<close> bounds the depth); the local variable it
  names exists; the constant of \<open>ldc\<close> is in the pool; the divisor is not zero and the
  quotient is an \<open>int\<close>; the length of a new array is one that \<open>newarray\<close> can serve; array
  references and indices are valid; the callee of \<open>invokestatic\<close> finds its parameters on
  the stack and room for them in its locals.\<close>

definition well_formed_at :: "class_file_t \<Rightarrow> method_t \<Rightarrow> state \<Rightarrow> bool" where
  "well_formed_at cls m s =
     (let instruction = code m ! pc s;
          depth = stack_index s;
          top = (\<lambda>k. stack s ! (depth - k));
          callee = find_method_from_index cls
                     (word_of_int (spec_s16 (code m ! (pc s + 1)) (code m ! (pc s + 2))))
      in pc s + operand_bytes instruction < code_length m
         \<and> spec_pops instruction \<le> depth
         \<and> (case spec_stack_delta instruction of
               Some d \<Rightarrow> int depth + d \<le> int (max_stack m)
             | None \<Rightarrow> True)
         \<and> (case local_slot m s of Some n \<Rightarrow> n < length (locals s) | None \<Rightarrow> True)
         \<and> (instruction = i_ldc \<longrightarrow>
               1 \<le> unat (code m ! (pc s + 1))
               \<and> unat (code m ! (pc s + 1)) \<le> length (constant_pool cls))
         \<and> (instruction \<in> {i_idiv, i_irem} \<longrightarrow>
               top 1 \<noteq> 0 \<and> \<not> (sint (top 2) = - (2 ^ 31) \<and> sint (top 1) = - 1))
         \<and> (instruction = i_newarray \<longrightarrow> 0 \<le> sint (top 1) \<and> sint (top 1) < 2 ^ 31 - 1)
         \<and> (instruction = i_arraylength \<longrightarrow> valid_reference (heap s) (top 1))
         \<and> (instruction = i_iaload \<longrightarrow> valid_element (heap s) (top 2) (top 1))
         \<and> (instruction = i_iastore \<longrightarrow> valid_element (heap s) (top 3) (top 2))
         \<and> (instruction = i_invokestatic \<longrightarrow>
               get_number_of_parameters callee \<le> depth
               \<and> get_number_of_parameters callee < 2 ^ 15
               \<and> get_number_of_parameters callee \<le> max_locals callee))"

text \<open>\<open>iastore\<close> alone, in a frame of three slots.\<close>

definition store_element :: method_t where
  "store_element =
     \<lparr>code = [i_iastore], max_stack = 3, max_locals = 0, descriptor_parameters = 0\<rparr>"

section \<open>Properties\<close>

subsection \<open>Auxiliary facts\<close>

text \<open>The equations of the two loops would rewrite for ever.\<close>

declare copy_parameters.simps [simp del] zero_elements.simps [simp del]

lemmas opcode_defs =
  i_nop_def i_iconst_m1_def i_iconst_0_def i_iconst_5_def i_bipush_def i_sipush_def
  i_ldc_def i_iload_def i_aload_def i_iload_0_def i_iload_3_def i_aload_0_def
  i_aload_3_def i_iaload_def i_istore_def i_astore_def i_istore_0_def i_istore_3_def
  i_astore_0_def i_astore_3_def i_iastore_def i_dup_def i_iadd_def i_isub_def i_imul_def
  i_idiv_def i_irem_def i_ineg_def i_ishl_def i_ishr_def i_iushr_def i_iand_def i_ior_def
  i_ixor_def i_iinc_def i_ifeq_def i_ifne_def i_iflt_def i_ifge_def i_ifgt_def i_ifle_def
  i_if_icmpeq_def i_if_icmpne_def i_if_icmplt_def i_if_icmpge_def i_if_icmpgt_def
  i_if_icmple_def i_goto_def i_ireturn_def i_areturn_def i_return_def i_getstatic_def
  i_invokevirtual_def i_invokestatic_def i_newarray_def i_arraylength_def


lemma and_then_Inl [simp]: "and_then (Inl e) f = Inl e"
  by (simp add: and_then_def)

lemma and_then_Inr [simp]: "and_then (Inr x) f = f x"
  by (simp add: and_then_def)

lemma and_then_eq_Inr:
  "and_then r f = Inr y \<longleftrightarrow> (\<exists>x. r = Inr x \<and> f x = Inr y)"
  by (cases r) simp_all

lemma array_read_in_range [simp]:
  "0 \<le> i \<Longrightarrow> i < int (length xs) \<Longrightarrow> array_read xs i = Inr (xs ! nat i)"
  by (simp add: array_read_def)

lemma array_write_in_range [simp]:
  "0 \<le> i \<Longrightarrow> i < int (length xs) \<Longrightarrow> array_write xs i v = Inr (xs[nat i := v])"
  by (simp add: array_write_def)

lemma array_read_eq_Inr:
  "array_read xs i = Inr v \<longleftrightarrow> 0 \<le> i \<and> i < int (length xs) \<and> v = xs ! nat i"
  by (auto simp: array_read_def)

lemma array_write_eq_Inr:
  "array_write xs i v = Inr ys \<longleftrightarrow> 0 \<le> i \<and> i < int (length xs) \<and> ys = xs[nat i := v]"
  by (auto simp: array_write_def)

text \<open>Which branch of the chain a given opcode byte selects.\<close>

lemma step_return: "code m ! pc s = i_return \<Longrightarrow> step cls m s = op_return s"
  by (simp add: step_def opcode_defs)

lemma step_ireturn: "code m ! pc s = i_ireturn \<Longrightarrow> step cls m s = op_value_return s"
  by (simp add: step_def opcode_defs)

lemma step_areturn: "code m ! pc s = i_areturn \<Longrightarrow> step cls m s = op_value_return s"
  by (simp add: step_def opcode_defs)

lemma step_nop: "code m ! pc s = i_nop \<Longrightarrow> step cls m s = op_nop s"
  by (simp add: step_def opcode_defs)

text \<open>Only the three return branches leave the loop.\<close>

lemma goes_on_simps [simp]:
  "goes_on (Inl e)" "goes_on (Inr (Running s))" "goes_on (Inr (Invoke c l s))"
  "\<not> goes_on (Inr (Returned val s))"
  by (simp_all add: goes_on_def)

lemma goes_on_and_then: "(\<And>x. goes_on (f x)) \<Longrightarrow> goes_on (and_then r f)"
  by (cases r) simp_all

lemma goes_on_ops:
  "goes_on (op_invokestatic cls m s)" "goes_on (op_bipush m s)" "goes_on (op_binary f s)"
  "goes_on (op_divide f s)" "goes_on (op_ineg s)" "goes_on (op_getstatic s)"
  "goes_on (op_invokevirtual s)" "goes_on (op_iconst i s)" "goes_on (op_sipush m s)"
  "goes_on (op_load m s)" "goes_on (op_store m s)" "goes_on (op_iinc m s)"
  "goes_on (op_load_n n s)" "goes_on (op_store_n n s)" "goes_on (op_ldc cls m s)"
  "goes_on (op_if p m s)" "goes_on (op_if_icmp q m s)" "goes_on (op_goto m s)"
  "goes_on (op_nop s)" "goes_on (op_dup s)" "goes_on (op_newarray s)"
  "goes_on (op_arraylength s)" "goes_on (op_iastore s)" "goes_on (op_iaload s)"
  unfolding op_invokestatic_def op_bipush_def op_binary_def op_divide_def op_ineg_def
    op_getstatic_def op_invokevirtual_def op_iconst_def op_sipush_def op_load_def
    op_store_def op_iinc_def op_load_n_def op_store_n_def op_ldc_def op_if_def
    op_if_icmp_def op_goto_def op_nop_def op_dup_def op_newarray_def op_arraylength_def
    op_iastore_def op_iaload_def Let_def
  by (auto intro!: goes_on_and_then simp: heap_add_def)

lemma step_goes_on:
  "code m ! pc s \<noteq> i_return \<Longrightarrow> code m ! pc s \<noteq> i_ireturn \<Longrightarrow> code m ! pc s \<noteq> i_areturn
     \<Longrightarrow> goes_on (step cls m s)"
  by (simp add: step_def Let_def goes_on_ops)

lemma step_Returned_shape:
  assumes "step cls m s = Inr (Returned val s')"
  shows "val = \<lparr>has_value = False, value = 0\<rparr> \<or> has_value val"
proof -
  consider "code m ! pc s = i_return" | "code m ! pc s = i_ireturn"
    | "code m ! pc s = i_areturn"
    | "code m ! pc s \<noteq> i_return" "code m ! pc s \<noteq> i_ireturn" "code m ! pc s \<noteq> i_areturn"
    by blast
  then show ?thesis
  proof cases
    case 1
    with assms show ?thesis by (simp add: step_return op_return_def)
  next
    case 2
    with assms show ?thesis
      by (auto simp: step_ireturn op_value_return_def and_then_eq_Inr)
  next
    case 3
    with assms show ?thesis
      by (auto simp: step_areturn op_value_return_def and_then_eq_Inr)
  next
    case 4
    then have "goes_on (step cls m s)" by (rule step_goes_on)
    with assms show ?thesis by simp
  qed
qed

lemma execute_loop_result_shape:
  "execute_loop fuel cls m s = Some (Inr (val, h, out)) \<Longrightarrow>
     val = \<lparr>has_value = False, value = 0\<rparr> \<or> has_value val"
proof (induction fuel cls m s rule: execute_loop.induct)
  case (1 cls m s)
  then show ?case by simp
next
  case (2 n cls m s)
  show ?case
  proof (cases "pc s < code_length m")
    case False
    with "2.prems" show ?thesis by auto
  next
    case True
    note running = True
    show ?thesis
    proof (cases "step cls m s")
      case (Inl e)
      with "2.prems" running show ?thesis by simp
    next
      case (Inr r)
      show ?thesis
      proof (cases r)
        case (Running s')
        with "2.prems" "2.IH"(1) running Inr show ?thesis by simp
      next
        case (Returned v s')
        with "2.prems" running Inr step_Returned_shape [of cls m s v s'] show ?thesis
          by auto
      next
        case (Invoke callee lt s')
        with "2.prems" "2.IH"(3) running Inr show ?thesis
          by (auto split: option.splits sum.splits)
      qed
    qed
  qed
qed

subsection \<open>The claims\<close>

text \<open>
  C7. In every frame, an opcode other than \<open>return\<close>, \<open>ireturn\<close> and \<open>areturn\<close> never
  makes the loop body return (the frame stays running). \<open>return\<close> makes \<open>execute\<close> yield
  the result without a value; \<open>ireturn\<close> and \<open>areturn\<close>, on a stack that holds its top
  slot, make it yield the value on top of the operand stack. Whatever \<open>execute\<close> yields
  is one of the two: the void result or a result with a value.
\<close>

theorem return_opcodes_end_the_frame:
  "(code m ! pc s \<notin> {i_return, i_ireturn, i_areturn} \<longrightarrow>
      (\<forall>val s'. step cls m s \<noteq> Inr (Returned val s')))
   \<and> (pc s < code_length m \<and> code m ! pc s = i_return \<longrightarrow>
        execute_loop (Suc fuel) cls m s =
          Some (Inr (\<lparr>has_value = False, value = 0\<rparr>, heap s, printed s)))
   \<and> (pc s < code_length m \<and> code m ! pc s \<in> {i_ireturn, i_areturn}
        \<and> 0 < stack_index s \<and> stack_index s \<le> length (stack s) \<longrightarrow>
        execute_loop (Suc fuel) cls m s =
          Some (Inr (\<lparr>has_value = True, value = stack s ! (stack_index s - 1)\<rparr>,
                     heap s, printed s)))
   \<and> (execute_loop fuel cls m s = Some (Inr (val, h, out)) \<longrightarrow>
        val = \<lparr>has_value = False, value = 0\<rparr> \<or> has_value val)"
proof (intro conjI impI allI)
  fix v s'
  assume "code m ! pc s \<notin> {i_return, i_ireturn, i_areturn}"
  then have "goes_on (step cls m s)" by (simp add: step_goes_on)
  then show "step cls m s \<noteq> Inr (Returned v s')" by auto
next
  assume "pc s < code_length m \<and> code m ! pc s = i_return"
  then show "execute_loop (Suc fuel) cls m s =
          Some (Inr (\<lparr>has_value = False, value = 0\<rparr>, heap s, printed s))"
    by (simp add: step_return op_return_def)
next
  assume a: "pc s < code_length m \<and> code m ! pc s \<in> {i_ireturn, i_areturn}
        \<and> 0 < stack_index s \<and> stack_index s \<le> length (stack s)"
  then have "step cls m s = op_value_return s"
    using step_ireturn step_areturn by auto
  moreover have "nat (int (stack_index s) - 1) = stack_index s - 1" by simp
  ultimately show "execute_loop (Suc fuel) cls m s =
          Some (Inr (\<lparr>has_value = True, value = stack s ! (stack_index s - 1)\<rparr>,
                     heap s, printed s))"
    using a by (simp add: op_value_return_def)
next
  assume "execute_loop fuel cls m s = Some (Inr (val, h, out))"
  then show "val = \<lparr>has_value = False, value = 0\<rparr> \<or> has_value val"
    by (rule execute_loop_result_shape)
qed

theorem return_opcodes_end_the_frame_witness:
  "code nop_method ! pc empty_state \<notin> {i_return, i_ireturn, i_areturn}
   \<and> step example_class nop_method empty_state
       \<noteq> Inr (Returned \<lparr>has_value = False, value = 0\<rparr> empty_state)
   \<and> pc empty_state < code_length return_method
   \<and> code return_method ! pc empty_state = i_return
   \<and> execute_loop (Suc 0) example_class return_method empty_state =
       Some (Inr (\<lparr>has_value = False, value = 0\<rparr>, [], []))
   \<and> pc (two_on_stack 7 9) < code_length (one_opcode i_ireturn)
   \<and> code (one_opcode i_ireturn) ! pc (two_on_stack 7 9) \<in> {i_ireturn, i_areturn}
   \<and> 0 < stack_index (two_on_stack 7 9)
   \<and> stack_index (two_on_stack 7 9) \<le> length (stack (two_on_stack 7 9))
   \<and> execute_loop (Suc 0) example_class (one_opcode i_ireturn) (two_on_stack 7 9) =
       Some (Inr (\<lparr>has_value = True, value = 9\<rparr>, [], []))
   \<and> (\<lparr>has_value = True, value = 9\<rparr> = \<lparr>has_value = False, value = 0\<rparr>
        \<or> has_value \<lparr>has_value = True, value = 9 :: int32\<rparr>)"
  using
    return_opcodes_end_the_frame [of nop_method empty_state example_class 0
      "\<lparr>has_value = False, value = 0\<rparr>" "[]" "[]"]
    return_opcodes_end_the_frame [of return_method empty_state example_class 0
      "\<lparr>has_value = False, value = 0\<rparr>" "[]" "[]"]
    return_opcodes_end_the_frame [of "one_opcode i_ireturn" "two_on_stack 7 9"
      example_class 0 "\<lparr>has_value = False, value = 0\<rparr>" "[]" "[]"]
    return_opcodes_end_the_frame [of "one_opcode i_ireturn" "two_on_stack 7 9"
      example_class "Suc 0" "\<lparr>has_value = True, value = 9\<rparr>" "[]" "[]"]
  by (simp add: nop_method_def return_method_def one_opcode_def two_on_stack_def
      empty_state_def code_length_def opcode_defs)

text \<open>
  C10. When the program counter has reached or passed \<open>code_length\<close>, \<open>execute\<close> leaves
  its loop and returns the void result (\<open>has_value = false\<close>), with the heap and the output
  as they are: it neither fails nor gets stuck. One unit of fuel is enough.
\<close>

theorem falling_off_the_end_returns_void:
  "code_length m \<le> pc s \<Longrightarrow>
     execute_loop (Suc fuel) cls m s =
       Some (Inr (\<lparr>has_value = False, value = 0\<rparr>, heap s, printed s))"
  by simp

theorem falling_off_the_end_returns_void_witness:
  "code_length nop_method \<le> pc (empty_state\<lparr>pc := 1\<rparr>)
   \<and> execute (Suc (Suc 0)) nop_method [] example_class [] [] =
       Some (Inr (\<lparr>has_value = False, value = 0\<rparr>, [], []))"
  using falling_off_the_end_returns_void
    [of nop_method "empty_state\<lparr>pc := 1\<rparr>" 0 example_class]
  by (simp add: execute_def initial_state_def nop_method_def empty_state_def
      code_length_def step_nop op_nop_def)

subsection \<open>Division and shifts\<close>

lemma nat_int_minus [simp]: "nat (int n - int k) = n - k"
  by simp

lemma nat_int_minus_numeral [simp]:
  "nat (int n - 1) = n - 1" "nat (int n - 2) = n - 2" "nat (int n - 3) = n - 3"
  by simp_all

lemma step_idiv: "code m ! pc s = i_idiv \<Longrightarrow> step cls m s = op_divide c_div s"
  by (simp add: step_def opcode_defs)

lemma step_irem: "code m ! pc s = i_irem \<Longrightarrow> step cls m s = op_divide c_rem s"
  by (simp add: step_def opcode_defs)

lemma step_ishl: "code m ! pc s = i_ishl \<Longrightarrow> step cls m s = op_binary c_shl s"
  by (simp add: step_def opcode_defs)

lemma step_ishr: "code m ! pc s = i_ishr \<Longrightarrow> step cls m s = op_binary c_shr s"
  by (simp add: step_def opcode_defs)

lemma step_iushr: "code m ! pc s = i_iushr \<Longrightarrow> step cls m s = op_binary c_ushr s"
  by (simp add: step_def opcode_defs)

lemma op_binary_result:
  assumes "2 \<le> stack_index s" "stack_index s \<le> length (stack s)"
  shows "op_binary f s =
    (case f (stack s ! (stack_index s - 2)) (stack s ! (stack_index s - 1)) of
       Inl e \<Rightarrow> Inl e
     | Inr c \<Rightarrow> Inr (Running (s\<lparr>stack := (stack s)[stack_index s - 2 := c],
                                stack_index := stack_index s - 1, pc := pc s + 1\<rparr>)))"
  using assms by (simp add: op_binary_def split: sum.split)

lemma op_divide_result:
  assumes "2 \<le> stack_index s" "stack_index s \<le> length (stack s)"
  shows "op_divide f s =
    (if stack s ! (stack_index s - 1) = 0 then Inl AssertionFailed
     else case f (stack s ! (stack_index s - 2)) (stack s ! (stack_index s - 1)) of
       Inl e \<Rightarrow> Inl e
     | Inr c \<Rightarrow> Inr (Running (s\<lparr>stack := (stack s)[stack_index s - 2 := c],
                                stack_index := stack_index s - 1, pc := pc s + 1\<rparr>)))"
  using assms by (simp add: op_divide_def split: sum.split)

lemma sint_int32_of_int:
  "- (2 ^ 31) \<le> k \<Longrightarrow> k < 2 ^ 31 \<Longrightarrow> sint (word_of_int k :: int32) = k"
  by (simp add: sint_sbintrunc' signed_take_bit_int_eq_self)

lemma sint_int32_range: "- (2 ^ 31) \<le> sint (a :: int32) \<and> sint a < 2 ^ 31"
  using sint_ge [of a] sint_lt [of a] by simp

lemma sdiv_int32_in_range:
  fixes a b :: int32
  assumes "\<not> (sint a = - (2 ^ 31) \<and> sint b = - 1)"
  shows "- (2 ^ 31) \<le> sint a sdiv sint b \<and> sint a sdiv sint b < 2 ^ 31"
proof -
  have r: "- (2 ^ 31) \<le> sint a" "sint a < 2 ^ 31" using sint_int32_range [of a] by auto
  have "sint a sdiv sint b \<in> {- \<bar>sint a\<bar>..\<bar>sint a\<bar>}" by (rule sdiv_int_range)
  then have bnd: "- \<bar>sint a\<bar> \<le> sint a sdiv sint b" "sint a sdiv sint b \<le> \<bar>sint a\<bar>" by auto
  show ?thesis
  proof (cases "sint a = - (2 ^ 31)")
    case False
    with r bnd show ?thesis by linarith
  next
    case True
    with assms have nb: "sint b \<noteq> - 1" by simp
    have "sint a sdiv sint b \<noteq> 2 ^ 31"
    proof
      assume "sint a sdiv sint b = 2 ^ 31"
      with True have "sint a sdiv sint b = - sint a" by simp
      moreover from True have "sint a \<noteq> 0" by simp
      ultimately have "sint b = - 1" by (simp add: int_sdiv_negated_is_minus1)
      with nb show False by simp
    qed
    with r bnd True show ?thesis by linarith
  qed
qed

lemma smod_int32_in_range:
  fixes a b :: int32
  assumes "b \<noteq> 0"
  shows "- (2 ^ 31) \<le> sint a smod sint b \<and> sint a smod sint b < 2 ^ 31"
proof -
  from assms have "sint b \<noteq> 0" by (simp add: signed_eq_0_iff)
  then have "sint a smod sint b \<in> {- \<bar>sint b\<bar> + 1..\<bar>sint b\<bar> - 1}" by (rule smod_int_range)
  moreover have "- (2 ^ 31) \<le> sint b" "sint b < 2 ^ 31" using sint_int32_range [of b] by auto
  ultimately show ?thesis by auto
qed

lemma c_div_defined:
  assumes "b \<noteq> 0" "\<not> (sint a = - (2 ^ 31) \<and> sint b = - 1)"
  shows "c_div a b = Inr (word_of_int (sint a sdiv sint b))"
  using assms sdiv_int32_in_range [of a b] by (simp add: c_div_def int32_result_def)

lemma c_rem_defined:
  assumes "b \<noteq> 0" "\<not> (sint a = - (2 ^ 31) \<and> sint b = - 1)"
  shows "c_rem a b = Inr (word_of_int (sint a smod sint b))"
  using assms sdiv_int32_in_range [of a b] by (simp add: c_rem_def int32_result_def)

lemma smod_sign:
  fixes k l :: int
  assumes "k smod l \<noteq> 0"
  shows "k smod l < 0 \<longleftrightarrow> k < 0"
proof -
  have "0 \<le> \<bar>k\<bar> mod \<bar>l\<bar>" 
    by (metis abs_ge_zero mod_by_0 pos_mod_sign abs_of_nonneg abs_zero zero_less_abs_iff order_refl)
  moreover from assms have "\<bar>k\<bar> mod \<bar>l\<bar> \<noteq> 0" by (auto simp: signed_modulo_int_def)
  ultimately have "0 < \<bar>k\<bar> mod \<bar>l\<bar>" by simp
  then show ?thesis
    by (cases "k < 0"; cases "k = 0") (simp_all add: signed_modulo_int_def sgn_if mult_less_0_iff)
qed

lemma sdiv_smod_decomp: "(k::int) = (k sdiv l) * l + k smod l"
proof -
  define q r where "q = \<bar>k\<bar> div \<bar>l\<bar>" and "r = \<bar>k\<bar> mod \<bar>l\<bar>"
  have "\<bar>k\<bar> = q * \<bar>l\<bar> + r" by (simp add: q_def r_def)
  moreover have "k = sgn k * \<bar>k\<bar>" by (simp add: sgn_mult_abs)
  ultimately have "k = sgn k * (q * \<bar>l\<bar> + r)" by metis
  moreover have "\<bar>l\<bar> = sgn l * l" by (simp add: abs_sgn mult.commute)
  ultimately have "k = sgn k * (q * (sgn l * l) + r)" by metis
  then have "k = (sgn k * sgn l * q) * l + sgn k * r"
    by (simp add: algebra_simps)
  then show ?thesis
    by (simp add: signed_divide_int_def signed_modulo_int_def q_def r_def)
qed

text \<open>
  C5 (as amended). \<open>idiv\<close> and \<open>irem\<close> take the divisor \<open>b\<close> from the top of the stack and
  the dividend \<open>a\<close> from below it, and assert \<open>b \<noteq> 0\<close>. For every nonzero \<open>b\<close> and every
  \<open>a\<close> other than the pair \<open>a = - 2 ^ 31\<close>, \<open>b = - 1\<close>, \<open>idiv\<close> replaces the two by the
  quotient truncated towards zero, and \<open>irem\<close> by the remainder \<open>a - (a / b) * b\<close>, which
  when nonzero has the sign of the dividend.
\<close>

theorem idiv_irem_truncate_towards_zero:
  assumes "2 \<le> stack_index s" and "stack_index s \<le> length (stack s)"
    and "a = stack s ! (stack_index s - 2)" and "b = stack s ! (stack_index s - 1)"
    and "code m ! pc s = i_idiv \<or> code m ! pc s = i_irem"
  shows
    "(b = 0 \<longrightarrow> step cls m s = Inl AssertionFailed)
     \<and> (b \<noteq> 0 \<and> \<not> (sint a = - (2 ^ 31) \<and> sint b = - 1) \<longrightarrow>
          (\<exists>c. step cls m s =
                 Inr (Running (s\<lparr>stack := (stack s)[stack_index s - 2 := c],
                                  stack_index := stack_index s - 1, pc := pc s + 1\<rparr>))
             \<and> (code m ! pc s = i_idiv \<longrightarrow>
                  sint c = sgn (sint a) * sgn (sint b) * (\<bar>sint a\<bar> div \<bar>sint b\<bar>))
             \<and> (code m ! pc s = i_irem \<longrightarrow>
                  sint c = sgn (sint a) * (\<bar>sint a\<bar> mod \<bar>sint b\<bar>)
                  \<and> (c \<noteq> 0 \<longrightarrow> (sint c < 0 \<longleftrightarrow> sint a < 0))
                  \<and> sint a = (sint a sdiv sint b) * sint b + sint c)))"
proof (intro conjI impI)
  assume "b = 0"
  with assms show "step cls m s = Inl AssertionFailed"
    by (auto simp: step_idiv step_irem op_divide_result)
next
  assume ok: "b \<noteq> 0 \<and> \<not> (sint a = - (2 ^ 31) \<and> sint b = - 1)"
  from assms(5) show "\<exists>c. step cls m s =
                 Inr (Running (s\<lparr>stack := (stack s)[stack_index s - 2 := c],
                                  stack_index := stack_index s - 1, pc := pc s + 1\<rparr>))
             \<and> (code m ! pc s = i_idiv \<longrightarrow>
                  sint c = sgn (sint a) * sgn (sint b) * (\<bar>sint a\<bar> div \<bar>sint b\<bar>))
             \<and> (code m ! pc s = i_irem \<longrightarrow>
                  sint c = sgn (sint a) * (\<bar>sint a\<bar> mod \<bar>sint b\<bar>)
                  \<and> (c \<noteq> 0 \<longrightarrow> (sint c < 0 \<longleftrightarrow> sint a < 0))
                  \<and> sint a = (sint a sdiv sint b) * sint b + sint c)"
  proof
    assume op: "code m ! pc s = i_idiv"
    then have ne: "code m ! pc s \<noteq> i_irem" by (simp add: opcode_defs)
    let ?c = "word_of_int (sint a sdiv sint b) :: int32"
    have "step cls m s =
        Inr (Running (s\<lparr>stack := (stack s)[stack_index s - 2 := ?c],
                         stack_index := stack_index s - 1, pc := pc s + 1\<rparr>))"
      using assms(1-4) ok op by (simp add: step_idiv op_divide_result c_div_defined)
    moreover have "sint ?c = sint a sdiv sint b"
      using ok sdiv_int32_in_range [of a b] by (simp add: sint_int32_of_int)
    then have "sint ?c = sgn (sint a) * sgn (sint b) * (\<bar>sint a\<bar> div \<bar>sint b\<bar>)"
      by (simp only: signed_divide_int_def)
    ultimately show ?thesis using ne by blast
  next
    assume op: "code m ! pc s = i_irem"
    then have ne: "code m ! pc s \<noteq> i_idiv" by (simp add: opcode_defs)
    let ?c = "word_of_int (sint a smod sint b) :: int32"
    have "step cls m s =
        Inr (Running (s\<lparr>stack := (stack s)[stack_index s - 2 := ?c],
                         stack_index := stack_index s - 1, pc := pc s + 1\<rparr>))"
      using assms(1-4) ok op by (simp add: step_irem op_divide_result c_rem_defined)
    moreover have c: "sint ?c = sint a smod sint b"
      using ok smod_int32_in_range [of b a] by (simp add: sint_int32_of_int)
    then have "sint ?c = sgn (sint a) * (\<bar>sint a\<bar> mod \<bar>sint b\<bar>)"
      by (simp only: signed_modulo_int_def)
    moreover have "?c \<noteq> 0 \<longrightarrow> (sint ?c < 0 \<longleftrightarrow> sint a < 0)"
    proof
      assume "?c \<noteq> 0"
      then have "sint ?c \<noteq> 0" by (simp only: signed_eq_0_iff not_False_eq_True)
      with c have "sint a smod sint b \<noteq> 0" by simp
      then have "sint a smod sint b < 0 \<longleftrightarrow> sint a < 0" by (rule smod_sign)
      with c show "sint ?c < 0 \<longleftrightarrow> sint a < 0" by simp
    qed
    moreover have "sint a = (sint a sdiv sint b) * sint b + sint ?c"
      using c sdiv_smod_decomp [of "sint a" "sint b"] by simp
    ultimately show ?thesis using ne by blast
  qed
qed

theorem idiv_irem_truncate_towards_zero_witness:
  "2 \<le> stack_index (two_on_stack (- 7) 2)
   \<and> stack_index (two_on_stack (- 7) 2) \<le> length (stack (two_on_stack (- 7) 2))
   \<and> (2 :: int32) \<noteq> 0 \<and> \<not> (sint (- 7 :: int32) = - (2 ^ 31) \<and> sint (2 :: int32) = - 1)
   \<and> step example_class (one_opcode i_idiv) (two_on_stack (- 7) 2) =
       Inr (Running \<lparr>pc = 1, stack_index = 1, stack = [- 3, 2], locals = [], heap = [],
                      printed = []\<rparr>)
   \<and> step example_class (one_opcode i_irem) (two_on_stack (- 7) 2) =
       Inr (Running \<lparr>pc = 1, stack_index = 1, stack = [- 1, 2], locals = [], heap = [],
                      printed = []\<rparr>)
   \<and> step example_class (one_opcode i_idiv) (two_on_stack (- 7) 0) = Inl AssertionFailed"
  using
    idiv_irem_truncate_towards_zero [of "two_on_stack (- 7) 2" "- 7" 2 "one_opcode i_idiv"
      example_class]
    idiv_irem_truncate_towards_zero [of "two_on_stack (- 7) 2" "- 7" 2 "one_opcode i_irem"
      example_class]
    idiv_irem_truncate_towards_zero [of "two_on_stack (- 7) 0" "- 7" 0 "one_opcode i_idiv"
      example_class]
  by (simp add: two_on_stack_def one_opcode_def step_idiv step_irem op_divide_result
      c_div_def c_rem_def int32_result_def)

text \<open>The claim as stated fails at \<open>a = - 2 ^ 31\<close>, \<open>b = - 1\<close>: the quotient \<open>2 ^ 31\<close> is
  not an \<open>int32_t\<close>, C defines neither \<open>a / b\<close> nor \<open>a % b\<close> there, and the division
  instruction traps.\<close>

theorem idiv_irem_int_min_by_minus_one:
  "step example_class (one_opcode i_idiv) (two_on_stack (- 2147483648) (- 1)) = Inl Undefined
   \<and> step example_class (one_opcode i_irem) (two_on_stack (- 2147483648) (- 1)) = Inl Undefined"
  by (simp add: two_on_stack_def one_opcode_def step_idiv step_irem op_divide_result
      c_div_def c_rem_def int32_result_def)

lemma shift_count_low_five_bits: "unat (b AND 0x1F) = shift_count b"
proof -
  have "(0x1F :: int32) = mask 5" by (simp add: mask_eq_exp_minus_1)
  then have "unat (b AND 0x1F) = unat (take_bit 5 b)" by (simp add: take_bit_eq_mask)
  also have "\<dots> = take_bit 5 (unat b)" by (simp add: unsigned_take_bit_eq)
  also have "\<dots> = unat b mod 32" by (simp add: take_bit_eq_mod)
  finally show ?thesis by (simp add: shift_count_def)
qed

lemma shift_count_in_range:
  assumes "0 \<le> sint b" "sint b < 32"
  shows "shift_count b = nat (sint b)"
proof -
  define k where "k = sint b"
  have b: "b = word_of_int k" by (simp add: k_def)
  from assms have k: "0 \<le> k" "k < 32" by (simp_all add: k_def)
  then have "k mod 2 ^ 32 = k" by (intro mod_pos_pos_trivial) simp_all
  then have "unat (word_of_int k :: int32) = nat k"
    by (simp add: unat_eq_nat_uint uint_word_of_int)
  with k show ?thesis unfolding shift_count_def b [symmetric] k_def by simp
qed

lemma shift_count_plus_32: "shift_count (32 + k) = shift_count k"
proof -
  have "unat (32 + k) = (32 + unat k) mod 2 ^ 32"
    by (simp add: unat_word_ariths)
  then have "unat (32 + k) mod 32 = (32 + unat k) mod 2 ^ 32 mod 32" by simp
  also have "\<dots> = (32 + unat k) mod 32"
    by (rule mod_mod_cancel) simp
  also have "\<dots> = unat k mod 32" by simp
  finally show ?thesis by (simp add: shift_count_def)
qed

text \<open>
  C2. \<open>ishl\<close> and \<open>ishr\<close> take the count \<open>b\<close> from the top of the stack and \<open>a\<close> from
  below it, for all 32-bit \<open>a\<close> and \<open>b\<close>, and replace the two by \<open>a\<close> shifted by the low
  five bits of \<open>b\<close>: \<open>ishl\<close> by the low 32 bits of \<open>a * 2 ^ (b AND 0x1F)\<close>, \<open>ishr\<close> by the
  arithmetic shift \<open>a div 2 ^ (b AND 0x1F)\<close>, rounded down, which keeps the sign. So the
  counts \<open>k\<close> and \<open>32 + k\<close> give the same result for every \<open>k\<close> in \<open>0 .. 31\<close>. The source
  writes the shift without a mask; the five bits are those the shift instruction of the
  host uses.
\<close>

theorem ishl_ishr_shift_by_low_five_bits:
  assumes "2 \<le> stack_index s" and "stack_index s \<le> length (stack s)"
    and "a = stack s ! (stack_index s - 2)" and "b = stack s ! (stack_index s - 1)"
  shows
    "(code m ! pc s = i_ishl \<longrightarrow>
        step cls m s =
          Inr (Running (s\<lparr>stack := (stack s)[stack_index s - 2 := a * 2 ^ unat (b AND 0x1F)],
                           stack_index := stack_index s - 1, pc := pc s + 1\<rparr>)))
     \<and> (code m ! pc s = i_ishr \<longrightarrow>
          (\<exists>c. step cls m s =
                 Inr (Running (s\<lparr>stack := (stack s)[stack_index s - 2 := c],
                                  stack_index := stack_index s - 1, pc := pc s + 1\<rparr>))
             \<and> sint c = sint a div 2 ^ unat (b AND 0x1F)
             \<and> (sint c < 0 \<longleftrightarrow> sint a < 0)))
     \<and> (code m ! pc s = i_ishl \<and> 0 \<le> sint k \<and> sint k < 32 \<and> (b = k \<or> b = 32 + k) \<longrightarrow>
          step cls m s =
            Inr (Running (s\<lparr>stack := (stack s)[stack_index s - 2 := a * 2 ^ nat (sint k)],
                             stack_index := stack_index s - 1, pc := pc s + 1\<rparr>)))
     \<and> (code m ! pc s = i_ishr \<and> 0 \<le> sint k \<and> sint k < 32 \<and> (b = k \<or> b = 32 + k) \<longrightarrow>
          (\<exists>c. step cls m s =
                 Inr (Running (s\<lparr>stack := (stack s)[stack_index s - 2 := c],
                                  stack_index := stack_index s - 1, pc := pc s + 1\<rparr>))
             \<and> sint c = sint a div 2 ^ nat (sint k)))"
proof -
  have shl: "step cls m s =
          Inr (Running (s\<lparr>stack := (stack s)[stack_index s - 2 := a * 2 ^ shift_count b],
                           stack_index := stack_index s - 1, pc := pc s + 1\<rparr>))"
    if "code m ! pc s = i_ishl"
    using that assms by (simp add: step_ishl op_binary_result c_shl_def push_bit_eq_mult)
  let ?c = "signed_drop_bit (shift_count b) a"
  have shr: "step cls m s =
          Inr (Running (s\<lparr>stack := (stack s)[stack_index s - 2 := ?c],
                           stack_index := stack_index s - 1, pc := pc s + 1\<rparr>))"
    if "code m ! pc s = i_ishr"
    using that assms by (simp add: step_ishr op_binary_result c_shr_def)
  have c: "sint ?c = sint a div 2 ^ shift_count b"
    by (simp add: sint_signed_drop_bit_eq drop_bit_int_def)
  have sign: "sint ?c < 0 \<longleftrightarrow> sint a < 0"
    unfolding c by (simp add: pos_imp_zdiv_neg_iff)
  have count: "shift_count b = nat (sint k)"
    if "0 \<le> sint k \<and> sint k < 32 \<and> (b = k \<or> b = 32 + k)"
    using that shift_count_in_range [of k] shift_count_plus_32 [of k] by auto
  show ?thesis
  proof (intro conjI impI)
    assume "code m ! pc s = i_ishl"
    then show "step cls m s =
          Inr (Running (s\<lparr>stack := (stack s)[stack_index s - 2 := a * 2 ^ unat (b AND 0x1F)],
                           stack_index := stack_index s - 1, pc := pc s + 1\<rparr>))"
      by (simp only: shl shift_count_low_five_bits)
  next
    assume "code m ! pc s = i_ishr"
    with shr c sign show "\<exists>c. step cls m s =
                 Inr (Running (s\<lparr>stack := (stack s)[stack_index s - 2 := c],
                                  stack_index := stack_index s - 1, pc := pc s + 1\<rparr>))
             \<and> sint c = sint a div 2 ^ unat (b AND 0x1F)
             \<and> (sint c < 0 \<longleftrightarrow> sint a < 0)"
      unfolding shift_count_low_five_bits by blast
  next
    assume h: "code m ! pc s = i_ishl \<and> 0 \<le> sint k \<and> sint k < 32 \<and> (b = k \<or> b = 32 + k)"
    then have "shift_count b = nat (sint k)" by (intro count) simp
    with h shl show "step cls m s =
            Inr (Running (s\<lparr>stack := (stack s)[stack_index s - 2 := a * 2 ^ nat (sint k)],
                             stack_index := stack_index s - 1, pc := pc s + 1\<rparr>))"
      by simp
  next
    assume h: "code m ! pc s = i_ishr \<and> 0 \<le> sint k \<and> sint k < 32 \<and> (b = k \<or> b = 32 + k)"
    then have "shift_count b = nat (sint k)" by (intro count) simp
    with h shr c show "\<exists>c. step cls m s =
                 Inr (Running (s\<lparr>stack := (stack s)[stack_index s - 2 := c],
                                  stack_index := stack_index s - 1, pc := pc s + 1\<rparr>))
             \<and> sint c = sint a div 2 ^ nat (sint k)"
      by auto
  qed
qed

theorem ishl_ishr_shift_by_low_five_bits_witness:
  "2 \<le> stack_index (two_on_stack (- 8) 33)
   \<and> stack_index (two_on_stack (- 8) 33) \<le> length (stack (two_on_stack (- 8) 33))
   \<and> 0 \<le> sint (1 :: int32) \<and> sint (1 :: int32) < 32 \<and> (33 :: int32) = 32 + 1
   \<and> step example_class (one_opcode i_ishl) (two_on_stack (- 8) 1) =
       Inr (Running \<lparr>pc = 1, stack_index = 1, stack = [- 16, 1], locals = [], heap = [],
                      printed = []\<rparr>)
   \<and> step example_class (one_opcode i_ishl) (two_on_stack (- 8) 33) =
       Inr (Running \<lparr>pc = 1, stack_index = 1, stack = [- 16, 33], locals = [], heap = [],
                      printed = []\<rparr>)
   \<and> step example_class (one_opcode i_ishr) (two_on_stack (- 8) 1) =
       Inr (Running \<lparr>pc = 1, stack_index = 1, stack = [- 4, 1], locals = [], heap = [],
                      printed = []\<rparr>)
   \<and> step example_class (one_opcode i_ishr) (two_on_stack (- 8) 33) =
       Inr (Running \<lparr>pc = 1, stack_index = 1, stack = [- 4, 33], locals = [], heap = [],
                      printed = []\<rparr>)"
proof -
  let ?s = "two_on_stack (- 8) 1" and ?t = "two_on_stack (- 8) 33"
  let ?shl = "one_opcode i_ishl" and ?shr = "one_opcode i_ishr"
  have ds: "2 \<le> stack_index ?s" "stack_index ?s \<le> length (stack ?s)"
    and dt: "2 \<le> stack_index ?t" "stack_index ?t \<le> length (stack ?t)"
    by (simp_all add: two_on_stack_def)
  have k: "0 \<le> sint (1 :: int32)" "sint (1 :: int32) < 32" "(33 :: int32) = 32 + 1"
    by simp_all
  have bs: "stack ?s ! (stack_index ?s - 1) = 1 \<or> stack ?s ! (stack_index ?s - 1) = 32 + 1"
    and bt: "stack ?t ! (stack_index ?t - 1) = 1 \<or> stack ?t ! (stack_index ?t - 1) = 32 + 1"
    by (simp_all add: two_on_stack_def)
  have a: "stack ?s ! (stack_index ?s - 2) = - 8" "stack ?t ! (stack_index ?t - 2) = - 8"
    by (simp_all add: two_on_stack_def)
  have op: "code ?shl ! pc ?s = i_ishl" "code ?shl ! pc ?t = i_ishl"
    "code ?shr ! pc ?s = i_ishr" "code ?shr ! pc ?t = i_ishr"
    by (simp_all add: one_opcode_def two_on_stack_def)
  have shifted: "(- 8 :: int32) * 2 ^ nat (sint (1 :: int32)) = - 16"
    "sint (- 8 :: int32) div 2 ^ nat (sint (1 :: int32)) = - 4"
    by simp_all
  note ths = ishl_ishr_shift_by_low_five_bits
    [OF ds refl refl, where cls = example_class and k = 1]
  note tht = ishl_ishr_shift_by_low_five_bits
    [OF dt refl refl, where cls = example_class and k = 1]
  from op(1) k(1,2) bs ths [where m = ?shl]
  have "step example_class ?shl ?s =
      Inr (Running (?s\<lparr>stack := (stack ?s)[stack_index ?s - 2 :=
                            stack ?s ! (stack_index ?s - 2) * 2 ^ nat (sint (1 :: int32))],
                       stack_index := stack_index ?s - 1, pc := pc ?s + 1\<rparr>))"
    by blast
  then have shl_s: "step example_class ?shl ?s =
      Inr (Running \<lparr>pc = 1, stack_index = 1, stack = [- 16, 1], locals = [], heap = [],
                     printed = []\<rparr>)"
    unfolding a shifted by (simp add: two_on_stack_def)
  from op(2) k(1,2) bt tht [where m = ?shl]
  have "step example_class ?shl ?t =
      Inr (Running (?t\<lparr>stack := (stack ?t)[stack_index ?t - 2 :=
                            stack ?t ! (stack_index ?t - 2) * 2 ^ nat (sint (1 :: int32))],
                       stack_index := stack_index ?t - 1, pc := pc ?t + 1\<rparr>))"
    by blast
  then have shl_t: "step example_class ?shl ?t =
      Inr (Running \<lparr>pc = 1, stack_index = 1, stack = [- 16, 33], locals = [], heap = [],
                     printed = []\<rparr>)"
    unfolding a shifted by (simp add: two_on_stack_def)
  from op(3) k(1,2) bs ths [where m = ?shr]
  obtain c where c: "step example_class ?shr ?s =
      Inr (Running (?s\<lparr>stack := (stack ?s)[stack_index ?s - 2 := c],
                       stack_index := stack_index ?s - 1, pc := pc ?s + 1\<rparr>))"
    and "sint c = sint (stack ?s ! (stack_index ?s - 2)) div 2 ^ nat (sint (1 :: int32))"
    by blast
  then have "sint c = - 4" unfolding a shifted by simp
  then have "word_of_int (sint c) = (word_of_int (- 4) :: int32)" by simp
  then have "c = - 4" by simp
  with c have shr_s: "step example_class ?shr ?s =
      Inr (Running \<lparr>pc = 1, stack_index = 1, stack = [- 4, 1], locals = [], heap = [],
                     printed = []\<rparr>)"
    by (simp add: two_on_stack_def)
  from op(4) k(1,2) bt tht [where m = ?shr]
  obtain c' where c': "step example_class ?shr ?t =
      Inr (Running (?t\<lparr>stack := (stack ?t)[stack_index ?t - 2 := c'],
                       stack_index := stack_index ?t - 1, pc := pc ?t + 1\<rparr>))"
    and "sint c' = sint (stack ?t ! (stack_index ?t - 2)) div 2 ^ nat (sint (1 :: int32))"
    by blast
  then have "sint c' = - 4" unfolding a shifted by simp
  then have "word_of_int (sint c') = (word_of_int (- 4) :: int32)" by simp
  then have "c' = - 4" by simp
  with c' have shr_t: "step example_class ?shr ?t =
      Inr (Running \<lparr>pc = 1, stack_index = 1, stack = [- 4, 33], locals = [], heap = [],
                     printed = []\<rparr>)"
    by (simp add: two_on_stack_def)
  from dt k shl_s shl_t shr_s shr_t show ?thesis by blast
qed

text \<open>
  C6. \<open>ishr\<close> of \<open>- 1\<close> by 1 gives \<open>- 1\<close> and \<open>iushr\<close> of \<open>- 1\<close> by 1 gives
  \<open>0x7FFFFFFF\<close>. In general \<open>iushr\<close> takes the count from the top of the stack and \<open>a\<close>
  from below it and shifts the unsigned reading of \<open>a\<close>, filling with zeros: for a count
  in \<open>0 .. 31\<close>, where the C shift is defined, the unsigned result is the unsigned \<open>a\<close>
  divided by \<open>2 ^ count\<close>.
\<close>

theorem ishr_arithmetic_iushr_logical:
  assumes "2 \<le> stack_index s" and "stack_index s \<le> length (stack s)"
    and "a = stack s ! (stack_index s - 2)" and "b = stack s ! (stack_index s - 1)"
  shows
    "(code m ! pc s = i_ishr \<and> a = - 1 \<and> b = 1 \<longrightarrow>
        step cls m s =
          Inr (Running (s\<lparr>stack := (stack s)[stack_index s - 2 := - 1],
                           stack_index := stack_index s - 1, pc := pc s + 1\<rparr>)))
     \<and> (code m ! pc s = i_iushr \<and> a = - 1 \<and> b = 1 \<longrightarrow>
          step cls m s =
            Inr (Running (s\<lparr>stack := (stack s)[stack_index s - 2 := 0x7FFFFFFF],
                             stack_index := stack_index s - 1, pc := pc s + 1\<rparr>)))
     \<and> (code m ! pc s = i_iushr \<and> 0 \<le> sint b \<and> sint b < 32 \<longrightarrow>
          (\<exists>c. step cls m s =
                 Inr (Running (s\<lparr>stack := (stack s)[stack_index s - 2 := c],
                                  stack_index := stack_index s - 1, pc := pc s + 1\<rparr>))
             \<and> unat c = unat a div 2 ^ nat (sint b)))"
proof (intro conjI impI)
  assume h: "code m ! pc s = i_ishr \<and> a = - 1 \<and> b = 1"
  with assms(3,4) have top: "stack s ! (stack_index s - 2) = - 1"
    "stack s ! (stack_index s - 1) = 1" by simp_all
  have "c_shr (- 1) 1 = Inr (- 1)" by (simp add: c_shr_def shift_count_def)
  with h assms(1,2) top show "step cls m s =
          Inr (Running (s\<lparr>stack := (stack s)[stack_index s - 2 := - 1],
                           stack_index := stack_index s - 1, pc := pc s + 1\<rparr>))"
    by (simp add: step_ishr op_binary_result)
next
  assume h: "code m ! pc s = i_iushr \<and> a = - 1 \<and> b = 1"
  with assms(3,4) have top: "stack s ! (stack_index s - 2) = - 1"
    "stack s ! (stack_index s - 1) = 1" by simp_all
  have "c_ushr (- 1) 1 = Inr 0x7FFFFFFF"
    by (simp add: c_ushr_def shift_count_def mask_eq_exp_minus_1)
  with h assms(1,2) top show "step cls m s =
            Inr (Running (s\<lparr>stack := (stack s)[stack_index s - 2 := 0x7FFFFFFF],
                             stack_index := stack_index s - 1, pc := pc s + 1\<rparr>))"
    by (simp add: step_iushr op_binary_result)
next
  assume h: "code m ! pc s = i_iushr \<and> 0 \<le> sint b \<and> sint b < 32"
  then have count: "shift_count b = nat (sint b)" by (intro shift_count_in_range) simp_all
  let ?c = "drop_bit (nat (sint b)) a"
  have "step cls m s =
          Inr (Running (s\<lparr>stack := (stack s)[stack_index s - 2 := ?c],
                           stack_index := stack_index s - 1, pc := pc s + 1\<rparr>))"
    using assms h count by (simp add: step_iushr op_binary_result c_ushr_def)
  moreover have "unat ?c = unat a div 2 ^ nat (sint b)"
    by (simp add: unat_drop_bit_eq drop_bit_nat_def)
  ultimately show "\<exists>c. step cls m s =
                 Inr (Running (s\<lparr>stack := (stack s)[stack_index s - 2 := c],
                                  stack_index := stack_index s - 1, pc := pc s + 1\<rparr>))
             \<and> unat c = unat a div 2 ^ nat (sint b)"
    by blast
qed

theorem ishr_arithmetic_iushr_logical_witness:
  "2 \<le> stack_index (two_on_stack (- 1) 1)
   \<and> stack_index (two_on_stack (- 1) 1) \<le> length (stack (two_on_stack (- 1) 1))
   \<and> 0 \<le> sint (1 :: int32) \<and> sint (1 :: int32) < 32
   \<and> step example_class (one_opcode i_ishr) (two_on_stack (- 1) 1) =
       Inr (Running \<lparr>pc = 1, stack_index = 1, stack = [- 1, 1], locals = [], heap = [],
                      printed = []\<rparr>)
   \<and> step example_class (one_opcode i_iushr) (two_on_stack (- 1) 1) =
       Inr (Running \<lparr>pc = 1, stack_index = 1, stack = [0x7FFFFFFF, 1], locals = [],
                      heap = [], printed = []\<rparr>)
   \<and> step example_class (one_opcode i_iushr) (two_on_stack (- 8) 1) =
       Inr (Running \<lparr>pc = 1, stack_index = 1, stack = [2147483644, 1], locals = [],
                      heap = [], printed = []\<rparr>)"
  using
    ishr_arithmetic_iushr_logical [of "two_on_stack (- 1) 1" "- 1" 1 "one_opcode i_ishr"
      example_class]
    ishr_arithmetic_iushr_logical [of "two_on_stack (- 1) 1" "- 1" 1 "one_opcode i_iushr"
      example_class]
    ishr_arithmetic_iushr_logical [of "two_on_stack (- 8) 1" "- 8" 1 "one_opcode i_iushr"
      example_class]
  by (simp add: two_on_stack_def one_opcode_def step_ishr step_iushr op_binary_result
      c_shr_def c_ushr_def shift_count_def)

subsection \<open>Branches\<close>

lemma or_low_byte:
  fixes k l :: int
  assumes "0 \<le> l" "l < 256"
  shows "256 * k OR l = 256 * k + l"
proof -
  have l: "take_bit 8 l = l" using assms by (simp add: take_bit_int_eq_self)
  have "push_bit 8 k + l = push_bit 8 k OR l"
  proof (rule disjunctive_add)
    fix n
    have "bit l n \<Longrightarrow> n < 8"
      using l by (metis bit_take_bit_iff)
    then show "\<not> bit (push_bit 8 k) n \<or> \<not> bit l n"
      by (auto simp: bit_push_bit_iff)
  qed
  then show ?thesis by (simp add: push_bit_eq_mult mult.commute)
qed

lemma sint16_of_shifted_byte:
  fixes h :: int
  assumes "0 \<le> h" "h < 256"
  shows "(256 * h + 32768) mod 65536 - 32768 = 256 * (if h < 128 then h else h - 256)"
proof (cases "h < 128")
  case True
  with assms have "(256 * h + 32768) mod 65536 = 256 * h + 32768"
    by (intro mod_pos_pos_trivial) simp_all
  with True show ?thesis by simp
next
  case False
  have "(256 * h + 32768) mod 65536 = (256 * h + 32768 - 65536) mod 65536"
    by (simp only: minus_mod_self2)
  also from False assms have "\<dots> = 256 * h + 32768 - 65536"
    by (intro mod_pos_pos_trivial) simp_all
  finally show ?thesis using False by simp
qed

lemma int16_operand_eq_s16: "int16_operand hi lo = spec_s16 hi lo"
proof -
  define h l where "h = uint hi" and "l = uint lo"
  have hr: "0 \<le> h" "h < 256" and lr: "0 \<le> l" "l < 256"
    using uint_lt2p [of hi] uint_lt2p [of lo] by (simp_all add: h_def l_def)
  have "sint (word_of_int (push_bit 8 h) :: 16 word) = (256 * h + 32768) mod 65536 - 32768"
    using int_word_sint [of "push_bit 8 h", where 'a = 16]
    by (simp add: push_bit_eq_mult mult.commute)
  also have "\<dots> = 256 * (if h < 128 then h else h - 256)"
    using hr by (rule sint16_of_shifted_byte)
  finally have "int16_operand hi lo = 256 * (if h < 128 then h else h - 256) OR l"
    by (simp only: int16_operand_def h_def l_def)
  also have "\<dots> = 256 * (if h < 128 then h else h - 256) + l"
    using lr by (rule or_low_byte)
  also have "\<dots> = spec_s16 hi lo"
  proof (cases "h < 128")
    case True
    with hr lr have "h * 256 + l < 32768" by simp
    with True show ?thesis by (simp add: spec_s16_def Let_def h_def l_def)
  next
    case False
    with hr lr have "\<not> h * 256 + l < 32768" by simp
    with False show ?thesis by (simp add: spec_s16_def Let_def h_def l_def)
  qed
  finally show ?thesis .
qed

lemma step_if:
  "code m ! pc s = i_ifeq \<Longrightarrow> step cls m s = op_if (\<lambda>a. a = 0) m s"
  "code m ! pc s = i_ifne \<Longrightarrow> step cls m s = op_if (\<lambda>a. a \<noteq> 0) m s"
  "code m ! pc s = i_iflt \<Longrightarrow> step cls m s = op_if (\<lambda>a. a <s 0) m s"
  "code m ! pc s = i_ifge \<Longrightarrow> step cls m s = op_if (\<lambda>a. 0 \<le>s a) m s"
  "code m ! pc s = i_ifgt \<Longrightarrow> step cls m s = op_if (\<lambda>a. 0 <s a) m s"
  "code m ! pc s = i_ifle \<Longrightarrow> step cls m s = op_if (\<lambda>a. a \<le>s 0) m s"
  by (simp_all add: step_def opcode_defs)

lemma step_if_icmp:
  "code m ! pc s = i_if_icmpeq \<Longrightarrow> step cls m s = op_if_icmp (\<lambda>a b. a = b) m s"
  "code m ! pc s = i_if_icmpne \<Longrightarrow> step cls m s = op_if_icmp (\<lambda>a b. a \<noteq> b) m s"
  "code m ! pc s = i_if_icmplt \<Longrightarrow> step cls m s = op_if_icmp (\<lambda>a b. a <s b) m s"
  "code m ! pc s = i_if_icmpge \<Longrightarrow> step cls m s = op_if_icmp (\<lambda>a b. b \<le>s a) m s"
  "code m ! pc s = i_if_icmpgt \<Longrightarrow> step cls m s = op_if_icmp (\<lambda>a b. b <s a) m s"
  "code m ! pc s = i_if_icmple \<Longrightarrow> step cls m s = op_if_icmp (\<lambda>a b. a \<le>s b) m s"
  by (simp_all add: step_def opcode_defs)

lemma step_goto: "code m ! pc s = i_goto \<Longrightarrow> step cls m s = op_goto m s"
  by (simp add: step_def opcode_defs)

lemma branch_in_code:
  "pc s + 2 < code_length m \<Longrightarrow>
     branch m s = Inr (branch_target (pc s) (code m ! (pc s + 1)) (code m ! (pc s + 2)))"
  by (simp add: branch_def code_at_def code_length_def nat_add_distrib)

lemma branch_eq_Inr:
  "branch m s = Inr t \<longleftrightarrow>
     pc s + 2 < code_length m
     \<and> t = branch_target (pc s) (code m ! (pc s + 1)) (code m ! (pc s + 2))"
  by (auto simp: branch_def code_at_def code_length_def and_then_eq_Inr array_read_eq_Inr
      nat_add_distrib)

lemma op_if_result:
  assumes "0 < stack_index s" "stack_index s \<le> length (stack s)" "pc s + 2 < code_length m"
  shows "op_if holds m s =
    Inr (Running (s\<lparr>pc := (if holds (stack s ! (stack_index s - 1))
                            then branch_target (pc s) (code m ! (pc s + 1)) (code m ! (pc s + 2))
                            else pc s + 3),
                     stack_index := stack_index s - 1\<rparr>))"
  using assms by (simp add: op_if_def branch_in_code)

lemma op_goto_result:
  assumes "pc s + 2 < code_length m"
  shows "op_goto m s =
    Inr (Running (s\<lparr>pc := branch_target (pc s) (code m ! (pc s + 1)) (code m ! (pc s + 2))\<rparr>))"
  using assms by (simp add: op_goto_def branch_in_code)

lemma op_if_target:
  assumes "op_if holds m s = Inr (Running s')"
  shows "pc s' = pc s + 3
    \<or> (pc s + 2 < code_length m
       \<and> pc s' = branch_target (pc s) (code m ! (pc s + 1)) (code m ! (pc s + 2)))"
  using assms
  by (auto simp: op_if_def and_then_eq_Inr branch_eq_Inr split: if_splits)

lemma op_if_icmp_target:
  assumes "op_if_icmp holds m s = Inr (Running s')"
  shows "pc s' = pc s + 3
    \<or> (pc s + 2 < code_length m
       \<and> pc s' = branch_target (pc s) (code m ! (pc s + 1)) (code m ! (pc s + 2)))"
  using assms
  by (auto simp: op_if_icmp_def and_then_eq_Inr branch_eq_Inr split: if_splits)

lemma op_goto_target:
  assumes "op_goto m s = Inr (Running s')"
  shows "pc s + 2 < code_length m
       \<and> pc s' = branch_target (pc s) (code m ! (pc s + 1)) (code m ! (pc s + 2))"
  using assms
  by (auto simp: op_goto_def and_then_eq_Inr branch_eq_Inr)

lemma branch_target_mod:
  "int (branch_target p hi lo) = (int p + spec_s16 hi lo) mod 2 ^ 64"
  by (simp add: branch_target_def size_t_add_def int16_operand_eq_s16)

lemma step_branch_cases:
  assumes "code m ! pc s \<in> {i_goto, i_ifeq, i_ifne, i_iflt, i_ifge, i_ifgt, i_ifle, i_if_icmpeq,
      i_if_icmpne, i_if_icmplt, i_if_icmpge, i_if_icmpgt, i_if_icmple}"
  shows "(\<exists>holds. step cls m s = op_if holds m s)
    \<or> (\<exists>holds. step cls m s = op_if_icmp holds m s)
    \<or> step cls m s = op_goto m s"
  using assms by (elim insertE emptyE) (blast intro: step_if step_if_icmp step_goto)+

lemma step_branch_target:
  assumes "code m ! pc s \<in> {i_goto, i_ifeq, i_ifne, i_iflt, i_ifge, i_ifgt, i_ifle, i_if_icmpeq,
      i_if_icmpne, i_if_icmplt, i_if_icmpge, i_if_icmpgt, i_if_icmple}"
    and "step cls m s = Inr (Running s')"
  shows "pc s' = pc s + 3
    \<or> (pc s + 2 < code_length m
       \<and> pc s' = branch_target (pc s) (code m ! (pc s + 1)) (code m ! (pc s + 2)))"
proof -
  from step_branch_cases [OF assms(1), of cls]
  consider (unary) holds where "step cls m s = op_if holds m s"
    | (binary) holds where "step cls m s = op_if_icmp holds m s"
    | (goto) "step cls m s = op_goto m s"
    by blast
  then show ?thesis
  proof cases
    case unary
    with assms(2) have "op_if holds m s = Inr (Running s')" by simp
    then show ?thesis by (rule op_if_target)
  next
    case binary
    with assms(2) have "op_if_icmp holds m s = Inr (Running s')" by simp
    then show ?thesis by (rule op_if_icmp_target)
  next
    case goto
    with assms(2) have "op_goto m s = Inr (Running s')" by simp
    then show ?thesis using op_goto_target [of m s s'] by blast
  qed
qed

lemma step_if_result:
  assumes "code m ! pc s \<in> {i_ifeq, i_ifne, i_iflt, i_ifge, i_ifgt, i_ifle}"
    and "0 < stack_index s" "stack_index s \<le> length (stack s)" "pc s + 2 < code_length m"
  shows "step cls m s =
    Inr (Running (s\<lparr>pc := (if spec_if_predicate (code m ! pc s) (sint (stack s ! (stack_index s - 1)))
                            then branch_target (pc s) (code m ! (pc s + 1)) (code m ! (pc s + 2))
                            else pc s + 3),
                     stack_index := stack_index s - 1\<rparr>))"
proof -
  have z: "sint (0 :: int32) = 0" by simp
  from assms(1) consider "code m ! pc s = i_ifeq" | "code m ! pc s = i_ifne"
    | "code m ! pc s = i_iflt" | "code m ! pc s = i_ifge" | "code m ! pc s = i_ifgt"
    | "code m ! pc s = i_ifle" by blast
  then show ?thesis
  proof cases
    case 1
    with assms(2-4) show ?thesis
      by (simp add: step_if op_if_result spec_if_predicate_def signed_eq_0_iff)
  next
    case 2
    with assms(2-4) show ?thesis
      by (simp add: step_if op_if_result spec_if_predicate_def opcode_defs signed_eq_0_iff)
  next
    case 3
    with assms(2-4) show ?thesis
      by (simp add: step_if op_if_result spec_if_predicate_def opcode_defs word_sless_alt)
  next
    case 4
    with assms(2-4) show ?thesis
      by (simp add: step_if op_if_result spec_if_predicate_def opcode_defs word_sle_eq)
  next
    case 5
    with assms(2-4) show ?thesis
      by (simp add: step_if op_if_result spec_if_predicate_def opcode_defs word_sless_alt)
  next
    case 6
    with assms(2-4) show ?thesis
      by (simp add: step_if op_if_result spec_if_predicate_def opcode_defs word_sle_eq)
  qed
qed

text \<open>
  C4. Every branch (\<open>goto\<close>, \<open>ifeq .. ifle\<close>, \<open>if_icmpeq .. if_icmple\<close>) that is taken
  sets the program counter to \<open>pc + s16(1)\<close>, where \<open>s16\<close> is the big-endian 16-bit value
  of the two bytes after the opcode, sign-extended: the sum is taken in \<open>size_t\<close>, so it is
  the signed sum whenever that is a program counter at all (not negative), and a negative
  offset jumps backwards. Each of \<open>ifeq\<close>, \<open>ifne\<close>, \<open>iflt\<close>, \<open>ifge\<close>, \<open>ifgt\<close>, \<open>ifle\<close>
  pops one value and jumps by that offset exactly when its predicate holds of the value
  against zero; otherwise it advances the program counter by 3.
\<close>

theorem branch_target_is_pc_plus_signed_offset:
  assumes "hi = code m ! (pc s + 1)" and "lo = code m ! (pc s + 2)"
  shows
    "int (branch_target (pc s) hi lo) = (int (pc s) + spec_s16 hi lo) mod 2 ^ 64
     \<and> (0 \<le> int (pc s) + spec_s16 hi lo \<and> int (pc s) + spec_s16 hi lo < 2 ^ 64 \<longrightarrow>
          int (branch_target (pc s) hi lo) = int (pc s) + spec_s16 hi lo)
     \<and> (code m ! pc s \<in> {i_goto, i_ifeq, i_ifne, i_iflt, i_ifge, i_ifgt, i_ifle,
            i_if_icmpeq, i_if_icmpne, i_if_icmplt, i_if_icmpge, i_if_icmpgt, i_if_icmple}
          \<and> step cls m s = Inr (Running s') \<longrightarrow>
          pc s' = pc s + 3
          \<or> (pc s + 2 < code_length m \<and> pc s' = branch_target (pc s) hi lo))
     \<and> (code m ! pc s = i_goto \<and> pc s + 2 < code_length m \<longrightarrow>
          step cls m s = Inr (Running (s\<lparr>pc := branch_target (pc s) hi lo\<rparr>)))
     \<and> (code m ! pc s \<in> {i_ifeq, i_ifne, i_iflt, i_ifge, i_ifgt, i_ifle}
          \<and> 0 < stack_index s \<and> stack_index s \<le> length (stack s)
          \<and> pc s + 2 < code_length m \<longrightarrow>
          step cls m s =
            Inr (Running
              (s\<lparr>pc := (if spec_if_predicate (code m ! pc s) (sint (stack s ! (stack_index s - 1)))
                         then branch_target (pc s) hi lo else pc s + 3),
                 stack_index := stack_index s - 1\<rparr>)))"
proof (intro conjI impI)
  show "int (branch_target (pc s) hi lo) = (int (pc s) + spec_s16 hi lo) mod 2 ^ 64"
    by (rule branch_target_mod)
next
  assume "0 \<le> int (pc s) + spec_s16 hi lo \<and> int (pc s) + spec_s16 hi lo < 2 ^ 64"
  then have "(int (pc s) + spec_s16 hi lo) mod 2 ^ 64 = int (pc s) + spec_s16 hi lo"
    by (intro mod_pos_pos_trivial) simp_all
  then show "int (branch_target (pc s) hi lo) = int (pc s) + spec_s16 hi lo"
    by (simp only: branch_target_mod)
next
  assume "code m ! pc s \<in> {i_goto, i_ifeq, i_ifne, i_iflt, i_ifge, i_ifgt, i_ifle,
            i_if_icmpeq, i_if_icmpne, i_if_icmplt, i_if_icmpge, i_if_icmpgt, i_if_icmple}
          \<and> step cls m s = Inr (Running s')"
  then show "pc s' = pc s + 3
          \<or> (pc s + 2 < code_length m \<and> pc s' = branch_target (pc s) hi lo)"
    unfolding assms using step_branch_target [of m s cls s'] by blast
next
  assume "code m ! pc s = i_goto \<and> pc s + 2 < code_length m"
  then show "step cls m s = Inr (Running (s\<lparr>pc := branch_target (pc s) hi lo\<rparr>))"
    unfolding assms by (simp only: step_goto op_goto_result)
next
  assume "code m ! pc s \<in> {i_ifeq, i_ifne, i_iflt, i_ifge, i_ifgt, i_ifle}
          \<and> 0 < stack_index s \<and> stack_index s \<le> length (stack s)
          \<and> pc s + 2 < code_length m"
  then show "step cls m s =
            Inr (Running
              (s\<lparr>pc := (if spec_if_predicate (code m ! pc s) (sint (stack s ! (stack_index s - 1)))
                         then branch_target (pc s) hi lo else pc s + 3),
                 stack_index := stack_index s - 1\<rparr>))"
    unfolding assms using step_if_result [of m s cls] by blast
qed

theorem branch_target_is_pc_plus_signed_offset_witness:
  "(code backward_branch ! pc ((two_on_stack 0 5)\<lparr>pc := 3\<rparr>)
        \<in> {i_ifeq, i_ifne, i_iflt, i_ifge, i_ifgt, i_ifle}
      \<and> 0 < stack_index ((two_on_stack 0 5)\<lparr>pc := 3\<rparr>)
      \<and> stack_index ((two_on_stack 0 5)\<lparr>pc := 3\<rparr>)
          \<le> length (stack ((two_on_stack 0 5)\<lparr>pc := 3\<rparr>))
      \<and> pc ((two_on_stack 0 5)\<lparr>pc := 3\<rparr>) + 2 < code_length backward_branch)
   \<and> spec_s16 0xff 0xfd = - 3
   \<and> int (branch_target 3 0xff 0xfd) = 3 + spec_s16 0xff 0xfd
   \<and> step example_class backward_branch ((two_on_stack 0 5)\<lparr>pc := 3\<rparr>) =
       Inr (Running \<lparr>pc = 0, stack_index = 1, stack = [0, 5], locals = [], heap = [],
                      printed = []\<rparr>)
   \<and> step example_class backward_branch ((two_on_stack 5 0)\<lparr>pc := 3\<rparr>) =
       Inr (Running \<lparr>pc = 6, stack_index = 1, stack = [5, 0], locals = [], heap = [],
                      printed = []\<rparr>)
   \<and> (code backward_branch ! pc ((two_on_stack 5 0)\<lparr>pc := 6\<rparr>) = i_goto
      \<and> pc ((two_on_stack 5 0)\<lparr>pc := 6\<rparr>) + 2 < code_length backward_branch)
   \<and> step example_class backward_branch ((two_on_stack 5 0)\<lparr>pc := 6\<rparr>) =
       Inr (Running \<lparr>pc = 0, stack_index = 2, stack = [5, 0], locals = [], heap = [],
                      printed = []\<rparr>)"
proof -
  let ?s = "(two_on_stack 0 5)\<lparr>pc := 3\<rparr>" and ?t = "(two_on_stack 5 0)\<lparr>pc := 3\<rparr>"
  let ?g = "(two_on_stack 5 0)\<lparr>pc := 6\<rparr>"
  note th = branch_target_is_pc_plus_signed_offset [OF refl refl, where cls = example_class]
  have offset: "spec_s16 0xff 0xfd = - 3"
    by (simp add: spec_s16_def)
  have target: "branch_target 3 0xff 0xfd = 0"
    by (simp add: branch_target_def size_t_add_def int16_operand_eq_s16 offset)
  have target6: "branch_target 6 0xff 0xfa = 0"
    by (simp add: branch_target_def size_t_add_def int16_operand_eq_s16 spec_s16_def)
  have holds: "spec_if_predicate i_ifne 5" "\<not> spec_if_predicate i_ifne 0"
    by (simp_all add: spec_if_predicate_def opcode_defs)
  have bytes: "pc ?s = 3" "code backward_branch ! 4 = 0xff" "code backward_branch ! 5 = 0xfd"
    by (simp_all add: backward_branch_def two_on_stack_def)
  have hs: "code backward_branch ! pc ?s \<in> {i_ifeq, i_ifne, i_iflt, i_ifge, i_ifgt, i_ifle}
          \<and> 0 < stack_index ?s \<and> stack_index ?s \<le> length (stack ?s)
          \<and> pc ?s + 2 < code_length backward_branch"
    by (simp add: backward_branch_def two_on_stack_def code_length_def)
  have ht: "code backward_branch ! pc ?t \<in> {i_ifeq, i_ifne, i_iflt, i_ifge, i_ifgt, i_ifle}
          \<and> 0 < stack_index ?t \<and> stack_index ?t \<le> length (stack ?t)
          \<and> pc ?t + 2 < code_length backward_branch"
    by (simp add: backward_branch_def two_on_stack_def code_length_def)
  have hg: "code backward_branch ! pc ?g = i_goto \<and> pc ?g + 2 < code_length backward_branch"
    by (simp add: backward_branch_def two_on_stack_def code_length_def)
  have in_range: "0 \<le> int (pc ?s) + spec_s16 (code backward_branch ! (pc ?s + 1))
                                       (code backward_branch ! (pc ?s + 2))
      \<and> int (pc ?s) + spec_s16 (code backward_branch ! (pc ?s + 1))
                               (code backward_branch ! (pc ?s + 2)) < 2 ^ 64"
    by (simp add: bytes offset)
  from in_range th [where m = backward_branch and s = ?s]
  have "int (branch_target (pc ?s) (code backward_branch ! (pc ?s + 1))
               (code backward_branch ! (pc ?s + 2)))
        = int (pc ?s) + spec_s16 (code backward_branch ! (pc ?s + 1))
                                 (code backward_branch ! (pc ?s + 2))"
    by blast
  then have signed_sum: "int (branch_target 3 0xff 0xfd) = 3 + spec_s16 0xff 0xfd"
    by (simp add: bytes)
  from hs th [where m = backward_branch and s = ?s]
  have "step example_class backward_branch ?s =
      Inr (Running
        (?s\<lparr>pc := (if spec_if_predicate (code backward_branch ! pc ?s)
                         (sint (stack ?s ! (stack_index ?s - 1)))
                   then branch_target (pc ?s) (code backward_branch ! (pc ?s + 1))
                          (code backward_branch ! (pc ?s + 2))
                   else pc ?s + 3),
           stack_index := stack_index ?s - 1\<rparr>))"
    by blast
  also have "\<dots> = Inr (Running \<lparr>pc = 0, stack_index = 1, stack = [0, 5], locals = [],
                                  heap = [], printed = []\<rparr>)"
    by (simp add: holds target two_on_stack_def backward_branch_def)
  finally have taken: "step example_class backward_branch ?s =
      Inr (Running \<lparr>pc = 0, stack_index = 1, stack = [0, 5], locals = [], heap = [],
                     printed = []\<rparr>)" .
  from ht th [where m = backward_branch and s = ?t]
  have "step example_class backward_branch ?t =
      Inr (Running
        (?t\<lparr>pc := (if spec_if_predicate (code backward_branch ! pc ?t)
                         (sint (stack ?t ! (stack_index ?t - 1)))
                   then branch_target (pc ?t) (code backward_branch ! (pc ?t + 1))
                          (code backward_branch ! (pc ?t + 2))
                   else pc ?t + 3),
           stack_index := stack_index ?t - 1\<rparr>))"
    by blast
  also have "\<dots> = Inr (Running \<lparr>pc = 6, stack_index = 1, stack = [5, 0], locals = [],
                                  heap = [], printed = []\<rparr>)"
    by (simp add: holds two_on_stack_def backward_branch_def)
  finally have not_taken: "step example_class backward_branch ?t =
      Inr (Running \<lparr>pc = 6, stack_index = 1, stack = [5, 0], locals = [], heap = [],
                     printed = []\<rparr>)" .
  from hg th [where m = backward_branch and s = ?g]
  have "step example_class backward_branch ?g =
      Inr (Running (?g\<lparr>pc := branch_target (pc ?g) (code backward_branch ! (pc ?g + 1))
                                 (code backward_branch ! (pc ?g + 2))\<rparr>))"
    by blast
  also have "\<dots> = Inr (Running \<lparr>pc = 0, stack_index = 2, stack = [5, 0], locals = [],
                                  heap = [], printed = []\<rparr>)"
    by (simp add: target6 two_on_stack_def backward_branch_def)
  finally have jump: "step example_class backward_branch ?g =
      Inr (Running \<lparr>pc = 0, stack_index = 2, stack = [5, 0], locals = [], heap = [],
                     printed = []\<rparr>)" .
  from hs offset signed_sum taken not_taken hg jump show ?thesis by blast
qed

subsection \<open>Unsupported opcodes\<close>

lemma unmatched_opcode_spins:
  "pc s < code_length m \<Longrightarrow> step cls m s = Inr (Running s) \<Longrightarrow>
     execute_loop fuel cls m s = None"
  by (induction fuel) simp_all

lemma step_unsupported:
  "\<not> supported (code m ! pc s) \<Longrightarrow> step cls m s = Inr (Running s)"
  by (auto simp: step_def supported_def Let_def)

text \<open>
  C9 (the code departs from the claim). The claim: a fetched opcode byte that is none of
  the supported instructions is fatal, the interpreter aborts with a diagnostic. The code:
  the \<open>if\<close> chain has no final \<open>else\<close>, so such a byte changes nothing, the program counter
  included, and the loop fetches it again for ever: \<open>execute\<close> neither aborts nor returns,
  whatever the fuel.
\<close>

theorem unsupported_opcode_never_returns:
  assumes "pc s < code_length m" and "\<not> supported (code m ! pc s)"
  shows "step cls m s = Inr (Running s) \<and> (\<forall>fuel. execute_loop fuel cls m s = None)"
proof (intro conjI allI)
  from assms(2) show stuck: "step cls m s = Inr (Running s)"
    by (rule step_unsupported)
  fix fuel
  from assms(1) stuck show "execute_loop fuel cls m s = None"
    by (rule unmatched_opcode_spins)
qed

theorem unsupported_opcode_never_returns_witness:
  "pc (initial_state (one_opcode 0xff) [] [] []) < code_length (one_opcode 0xff)
   \<and> \<not> supported (code (one_opcode 0xff) ! pc (initial_state (one_opcode 0xff) [] [] []))
   \<and> (\<forall>fuel. execute fuel (one_opcode 0xff) [] example_class [] [] = None)"
proof -
  let ?s = "initial_state (one_opcode 0xff) [] [] []"
  have a: "pc ?s < code_length (one_opcode 0xff)"
    by (simp add: one_opcode_def initial_state_def code_length_def)
  have b: "\<not> supported (code (one_opcode 0xff) ! pc ?s)"
    by (simp add: one_opcode_def initial_state_def supported_def opcode_defs)
  from unsupported_opcode_never_returns [OF a b, of example_class]
  have "\<forall>fuel. execute fuel (one_opcode 0xff) [] example_class [] [] = None"
    by (simp add: execute_def)
  with a b show ?thesis by blast
qed

subsection \<open>Stack depth and calls\<close>

lemma depth_change_simps [simp]:
  "depth_change s d (Inl e)" "depth_change s d (Inr (Returned v t))"
  "depth_change s d (Inr (Invoke c l t))"
  "depth_change s d (Inr (Running s')) \<longleftrightarrow>
     length (stack s') = length (stack s)
     \<and> int (stack_index s') = int (stack_index s) + d
     \<and> stack_index s' \<le> length (stack s')"
  by (simp_all add: depth_change_def)

lemma depth_change_and_then:
  "(\<And>x. r = Inr x \<Longrightarrow> depth_change s d (f x)) \<Longrightarrow> depth_change s d (and_then r f)"
  by (cases r) simp_all

lemma depth_change_pop:
  assumes "stack_index s \<le> length (stack s)"
  shows "depth_change s (- 1) (op_binary f s)" "depth_change s (- 1) (op_divide f s)"
    "depth_change s (- 1) (op_invokevirtual s)" "depth_change s (- 1) (op_store m s)"
    "depth_change s (- 1) (op_store_n n s)" "depth_change s (- 1) (op_if p m s)"
    "depth_change s (- 1) (op_iaload s)"
  using assms
  unfolding op_binary_def op_divide_def op_invokevirtual_def op_store_def op_store_n_def
    op_if_def op_iaload_def
  by (auto intro!: depth_change_and_then simp: array_read_eq_Inr array_write_eq_Inr)

lemma depth_change_push:
  assumes "stack_index s \<le> length (stack s)"
  shows "depth_change s 1 (op_bipush m s)" "depth_change s 1 (op_iconst i s)"
    "depth_change s 1 (op_sipush m s)" "depth_change s 1 (op_load m s)"
    "depth_change s 1 (op_load_n n s)" "depth_change s 1 (op_ldc cls m s)"
    "depth_change s 1 (op_dup s)"
  using assms
  unfolding op_bipush_def op_iconst_def op_sipush_def op_load_def op_load_n_def op_ldc_def
    op_dup_def Let_def
  by (auto intro!: depth_change_and_then simp: array_read_eq_Inr array_write_eq_Inr)

lemma depth_change_keep:
  assumes "stack_index s \<le> length (stack s)"
  shows "depth_change s 0 (op_ineg s)" "depth_change s 0 (op_getstatic s)"
    "depth_change s 0 (op_iinc m s)" "depth_change s 0 (op_goto m s)"
    "depth_change s 0 (op_nop s)" "depth_change s 0 (op_newarray s)"
    "depth_change s 0 (op_arraylength s)"
  using assms
  unfolding op_ineg_def op_getstatic_def op_iinc_def op_goto_def op_nop_def op_newarray_def
    op_arraylength_def Let_def
  by (auto intro!: depth_change_and_then simp: array_read_eq_Inr array_write_eq_Inr
      split: prod.split)

lemma depth_change_pop2:
  assumes "stack_index s \<le> length (stack s)"
  shows "depth_change s (- 2) (op_if_icmp q m s)"
  using assms unfolding op_if_icmp_def
  by (auto intro!: depth_change_and_then simp: array_read_eq_Inr array_write_eq_Inr)

lemma depth_change_pop3:
  assumes "stack_index s \<le> length (stack s)"
  shows "depth_change s (- 3) (op_iastore s)"
  using assms unfolding op_iastore_def
  by (auto intro!: depth_change_and_then simp: array_read_eq_Inr array_write_eq_Inr)

lemma step_more:
  "code m ! pc s = i_bipush \<Longrightarrow> step cls m s = op_bipush m s"
  "code m ! pc s = i_sipush \<Longrightarrow> step cls m s = op_sipush m s"
  "code m ! pc s = i_ldc \<Longrightarrow> step cls m s = op_ldc cls m s"
  "code m ! pc s = i_iload \<Longrightarrow> step cls m s = op_load m s"
  "code m ! pc s = i_aload \<Longrightarrow> step cls m s = op_load m s"
  "code m ! pc s = i_istore \<Longrightarrow> step cls m s = op_store m s"
  "code m ! pc s = i_astore \<Longrightarrow> step cls m s = op_store m s"
  "code m ! pc s = i_iinc \<Longrightarrow> step cls m s = op_iinc m s"
  "code m ! pc s = i_iadd \<Longrightarrow> step cls m s = op_binary c_add s"
  "code m ! pc s = i_isub \<Longrightarrow> step cls m s = op_binary c_sub s"
  "code m ! pc s = i_imul \<Longrightarrow> step cls m s = op_binary c_mul s"
  "code m ! pc s = i_ineg \<Longrightarrow> step cls m s = op_ineg s"
  "code m ! pc s = i_iand \<Longrightarrow> step cls m s = op_binary c_and s"
  "code m ! pc s = i_ior \<Longrightarrow> step cls m s = op_binary c_or s"
  "code m ! pc s = i_ixor \<Longrightarrow> step cls m s = op_binary c_xor s"
  "code m ! pc s = i_dup \<Longrightarrow> step cls m s = op_dup s"
  "code m ! pc s = i_getstatic \<Longrightarrow> step cls m s = op_getstatic s"
  "code m ! pc s = i_invokevirtual \<Longrightarrow> step cls m s = op_invokevirtual s"
  "code m ! pc s = i_newarray \<Longrightarrow> step cls m s = op_newarray s"
  "code m ! pc s = i_arraylength \<Longrightarrow> step cls m s = op_arraylength s"
  "code m ! pc s = i_iaload \<Longrightarrow> step cls m s = op_iaload s"
  "code m ! pc s = i_iastore \<Longrightarrow> step cls m s = op_iastore s"
  "code m ! pc s = i_invokestatic \<Longrightarrow> step cls m s = op_invokestatic cls m s"
  by (simp_all add: step_def opcode_defs)

lemma u1_between:
  fixes x :: u1
  assumes "a \<le> x" "x \<le> b"
  shows "\<exists>n. unat a \<le> n \<and> n \<le> unat b \<and> x = of_nat n"
  using assms by (intro exI [of _ "unat x"]) (simp add: word_le_nat_alt)

lemma iconst_range:
  fixes x :: u1
  assumes "i_iconst_m1 \<le> x" "x \<le> i_iconst_5"
  shows "x \<in> {2, 3, 4, 5, 6, 7, 8}"
proof -
  from u1_between [OF assms] obtain n where n: "2 \<le> n" "n \<le> 8" "x = of_nat n"
    by (auto simp: opcode_defs)
  then have "n \<in> {2, 3, 4, 5, 6, 7, 8}" by auto
  with n(3) show ?thesis by auto
qed

lemma four_range:
  fixes x b :: u1
  assumes "b \<le> x" "x \<le> b + 3" "unat b + 3 < 256"
  shows "x \<in> {b, b + 1, b + 2, b + 3}"
proof -
  from assms(3) have "unat (b + 3) = unat b + 3"
    by (simp add: unat_word_ariths)
  with u1_between [OF assms(1,2)] obtain n where
    n: "unat b \<le> n" "n \<le> unat b + 3" "x = of_nat n" by auto
  then have "n \<in> {unat b, unat b + 1, unat b + 2, unat b + 3}" by auto
  with n(3) show ?thesis by auto
qed

lemma step_iconst:
  assumes "i_iconst_m1 \<le> code m ! pc s" "code m ! pc s \<le> i_iconst_5"
  shows "step cls m s = op_iconst (code m ! pc s) s"
  using iconst_range [OF assms]
  by (elim insertE emptyE) (simp_all add: step_def opcode_defs)


lemma step_iload_n:
  assumes "i_iload_0 \<le> code m ! pc s" "code m ! pc s \<le> i_iload_3"
  shows "step cls m s = op_load_n (uint (code m ! pc s) - uint i_iload_0) s"
proof -
  from assms have "code m ! pc s \<in> {0x1a, 0x1b, 0x1c, 0x1d}"
    using four_range [of i_iload_0 "code m ! pc s"] by (simp add: opcode_defs)
  then show ?thesis
    by (elim insertE emptyE) (simp_all add: step_def opcode_defs)
qed

lemma step_aload_n:
  assumes "i_aload_0 \<le> code m ! pc s" "code m ! pc s \<le> i_aload_3"
  shows "step cls m s = op_load_n (uint (code m ! pc s) - uint i_aload_0) s"
proof -
  from assms have "code m ! pc s \<in> {0x2a, 0x2b, 0x2c, 0x2d}"
    using four_range [of i_aload_0 "code m ! pc s"] by (simp add: opcode_defs)
  then show ?thesis
    by (elim insertE emptyE) (simp_all add: step_def opcode_defs)
qed

lemma step_istore_n:
  assumes "i_istore_0 \<le> code m ! pc s" "code m ! pc s \<le> i_istore_3"
  shows "step cls m s = op_store_n (uint (code m ! pc s) - uint i_istore_0) s"
proof -
  from assms have "code m ! pc s \<in> {0x3b, 0x3c, 0x3d, 0x3e}"
    using four_range [of i_istore_0 "code m ! pc s"] by (simp add: opcode_defs)
  then show ?thesis
    by (elim insertE emptyE) (simp_all add: step_def opcode_defs)
qed

lemma step_astore_n:
  assumes "i_astore_0 \<le> code m ! pc s" "code m ! pc s \<le> i_astore_3"
  shows "step cls m s = op_store_n (uint (code m ! pc s) - uint i_astore_0) s"
proof -
  from assms have "code m ! pc s \<in> {0x4b, 0x4c, 0x4d, 0x4e}"
    using four_range [of i_astore_0 "code m ! pc s"] by (simp add: opcode_defs)
  then show ?thesis
    by (elim insertE emptyE) (simp_all add: step_def opcode_defs)
qed

lemma spec_stack_delta_cases:
  assumes "spec_stack_delta x = Some d"
  shows
    "(i_iconst_m1 \<le> x \<and> x \<le> i_iconst_5 \<and> d = 1)
     \<or> (x \<in> {i_bipush, i_sipush, i_ldc, i_iload, i_aload, i_dup} \<and> d = 1)
     \<or> (i_iload_0 \<le> x \<and> x \<le> i_iload_3 \<and> d = 1)
     \<or> (i_aload_0 \<le> x \<and> x \<le> i_aload_3 \<and> d = 1)
     \<or> (x \<in> {i_istore, i_astore, i_iadd, i_isub, i_imul, i_idiv, i_irem, i_iand, i_ior,
               i_ixor, i_ishl, i_ishr, i_iushr, i_ifeq, i_ifne, i_iflt, i_ifge, i_ifgt,
               i_ifle, i_invokevirtual, i_iaload} \<and> d = - 1)
     \<or> (i_istore_0 \<le> x \<and> x \<le> i_istore_3 \<and> d = - 1)
     \<or> (i_astore_0 \<le> x \<and> x \<le> i_astore_3 \<and> d = - 1)
     \<or> (x \<in> {i_iinc, i_ineg, i_nop, i_goto, i_getstatic, i_newarray, i_arraylength}
          \<and> d = 0)
     \<or> (x \<in> {i_if_icmpeq, i_if_icmpne, i_if_icmplt, i_if_icmpge, i_if_icmpgt,
               i_if_icmple} \<and> d = - 2)
     \<or> (x = i_iastore \<and> d = - 3)"
  using assms unfolding spec_stack_delta_def
  by (simp split: if_splits) blast+


lemmas step_select =
  step_more step_if step_if_icmp step_goto step_nop step_idiv step_irem step_ishl step_ishr
  step_iushr

lemma step_depth:
  assumes ok: "stack_index s \<le> length (stack s)"
    and d: "spec_stack_delta (code m ! pc s) = Some d"
  shows "depth_change s d (step cls m s)"
  using spec_stack_delta_cases [OF d]
  by (elim disjE conjE insertE emptyE)
    (simp_all add: step_select step_iconst step_iload_n step_aload_n step_istore_n
      step_astore_n depth_change_pop [OF ok] depth_change_push [OF ok]
      depth_change_keep [OF ok] depth_change_pop2 [OF ok] depth_change_pop3 [OF ok])

lemma copy_parameters_unfold:
  "copy_parameters stk si parameters i lt =
     (if i < parameters then
        (case array_read stk (int si - i - 1) of
           Inl e \<Rightarrow> Inl e
         | Inr v \<Rightarrow>
            (case array_write lt (parameters - i - 1) v of
               Inl e \<Rightarrow> Inl e
             | Inr lt' \<Rightarrow> copy_parameters stk si parameters (i + 1) lt'))
      else Inr lt)"
  by (rule copy_parameters.simps)

lemma drop_update_same: "k < length xs \<Longrightarrow> drop k (xs[k := v]) = v # drop (Suc k) xs"
  by (simp add: Cons_nth_drop_Suc [symmetric])

lemma copy_parameters_from:
  assumes "P \<le> si" "si \<le> length stk" "P \<le> length lt" "i + k = P"
  shows "copy_parameters stk si (int P) (int i) lt =
           Inr (take k (drop (si - P) stk) @ drop k lt)"
  using assms(3,4)
proof (induction k arbitrary: i lt)
  case 0
  then show ?case by (subst copy_parameters_unfold) simp
next
  case (Suc k)
  from Suc.prems assms(1,2) have i: "i < P" and rd: "int si - int i - 1 = int (si - i - 1)"
    and rng: "si - i - 1 < length stk" and wr: "int P - int i - 1 = int k"
    and k: "k < length lt" and idx: "si - i - 1 = si - P + k"
    by auto
  let ?v = "stk ! (si - P + k)"
  have "copy_parameters stk si (int P) (int i) lt =
          copy_parameters stk si (int P) (int (Suc i)) (lt[k := ?v])"
    using i rng k idx by (subst copy_parameters_unfold) (simp add: rd wr add.commute nat_add_distrib)
  also have "\<dots> = Inr (take k (drop (si - P) stk) @ drop k (lt[k := ?v]))"
    using Suc.prems by (intro Suc.IH) simp_all
  also have "drop k (lt[k := ?v]) = ?v # drop (Suc k) lt"
    using k by (rule drop_update_same)
  also have "take k (drop (si - P) stk) @ ?v # drop (Suc k) lt =
      take (Suc k) (drop (si - P) stk) @ drop (Suc k) lt"
    using rng idx by (simp add: take_Suc_conv_app_nth)
  finally show ?case .
qed

lemma copy_parameters_all:
  assumes "P \<le> si" "si \<le> length stk" "P \<le> length lt"
  shows "copy_parameters stk si (int P) 0 lt = Inr (take P (drop (si - P) stk) @ drop P lt)"
  using copy_parameters_from [OF assms, of 0 P] by simp

lemma sint_parameters:
  "P < 2 ^ 15 \<Longrightarrow> sint (word_of_nat P :: 16 word) = int P"
proof -
  assume "P < 2 ^ 15"
  then have "- (2 ^ 15) \<le> int P \<and> int P < 2 ^ 15" by simp
  then have "signed_take_bit 15 (int P) = int P"
    by (simp add: signed_take_bit_int_eq_self)
  then show ?thesis
    using sint_sbintrunc' [of "int P", where 'a = 16] by simp
qed

lemma size_t_add_minus:
  "P \<le> si \<Longrightarrow> si < 2 ^ 64 \<Longrightarrow> size_t_add si (- int P) = si - P"
proof -
  assume a: "P \<le> si" "si < 2 ^ 64"
  then have "int si < 2 ^ 64" by (metis of_nat_less_iff of_nat_numeral of_nat_power)
  with a have "(int si - int P) mod 2 ^ 64 = int si - int P"
    by (intro mod_pos_pos_trivial) simp_all
  with a show ?thesis by (simp add: size_t_add_def)
qed

lemma op_invokestatic_result:
  assumes "pc s + 2 < code_length m"
    and "callee = find_method_from_index cls
           (word_of_int (int16_operand (code m ! (pc s + 1)) (code m ! (pc s + 2))))"
    and "P = get_number_of_parameters callee"
    and "P < 2 ^ 15" "P \<le> stack_index s" "stack_index s \<le> length (stack s)"
    and "stack_index s < 2 ^ 64" "P \<le> max_locals callee"
  shows "op_invokestatic cls m s =
    Inr (Invoke callee
           (take P (drop (stack_index s - P) (stack s)) @ replicate (max_locals callee - P) 0)
           (s\<lparr>stack_index := stack_index s - P\<rparr>))"
proof -
  have rd: "code_at m (pc s + 1) = Inr (code m ! (pc s + 1))"
    "code_at m (pc s + 2) = Inr (code m ! (pc s + 2))"
    using assms(1) by (simp_all add: code_at_def code_length_def nat_add_distrib)
  have cp: "copy_parameters (stack s) (stack_index s) (int P) 0 (replicate (max_locals callee) 0)
      = Inr (take P (drop (stack_index s - P) (stack s)) @ replicate (max_locals callee - P) 0)"
    using copy_parameters_all [of P "stack_index s" "stack s" "replicate (max_locals callee) 0"]
      assms(5,6,8) by simp
  show ?thesis
    unfolding op_invokestatic_def rd and_then_Inr Let_def
      assms(2) [symmetric] assms(3) [symmetric]
    using assms(4) size_t_add_minus [OF assms(5,7)] by (simp add: sint_parameters cp)
qed

text \<open>
  C1. For an \<open>invokestatic\<close> whose callee has \<open>P\<close> parameters, the interpreter pops \<open>P\<close>
  values off the caller's stack into a callee-locals array of length \<open>max_locals\<close> of the
  callee, zero outside the parameters: the first value popped lands in slot \<open>P - 1\<close> and
  the last in slot 0, so the arguments keep the order in which they were pushed. \<open>execute\<close>
  then runs the callee on these locals; when the callee returns, a returned value (if any)
  is pushed on the caller's stack and the caller's \<open>pc\<close> advances by 3.
\<close>

theorem invokestatic_passes_parameters_in_order:
  assumes "code m ! pc s = i_invokestatic" and "pc s + 2 < code_length m"
    and "callee = find_method_from_index cls
           (word_of_int (spec_s16 (code m ! (pc s + 1)) (code m ! (pc s + 2))))"
    and "P = get_number_of_parameters callee" and "P < 2 ^ 15"
    and "P \<le> stack_index s" and "stack_index s \<le> length (stack s)"
    and "stack_index s < 2 ^ 64" and "P \<le> max_locals callee"
    and "callee_locals =
           take P (drop (stack_index s - P) (stack s)) @ replicate (max_locals callee - P) 0"
    and "s1 = s\<lparr>stack_index := stack_index s - P\<rparr>"
  shows
    "step cls m s = Inr (Invoke callee callee_locals s1)
     \<and> length callee_locals = max_locals callee
     \<and> (\<forall>i. i < P \<longrightarrow> callee_locals ! (P - 1 - i) = stack s ! (stack_index s - 1 - i))
     \<and> (\<forall>j. P \<le> j \<and> j < max_locals callee \<longrightarrow> callee_locals ! j = 0)
     \<and> execute_loop (Suc fuel) cls m s =
         (case execute fuel callee callee_locals cls (heap s) (printed s) of
            None \<Rightarrow> None
          | Some (Inl e) \<Rightarrow> Some (Inl e)
          | Some (Inr (val, h, out)) \<Rightarrow>
              (case invoke_return s1 val h out of
                 Inl e \<Rightarrow> Some (Inl e)
               | Inr s2 \<Rightarrow> execute_loop fuel cls m s2))
     \<and> (has_value val \<and> stack_index s1 < length (stack s) \<longrightarrow>
          invoke_return s1 val h out =
            Inr (s\<lparr>stack := (stack s)[stack_index s - P := value val],
                   stack_index := stack_index s - P + 1, pc := pc s + 3,
                   heap := h, printed := out\<rparr>))
     \<and> (\<not> has_value val \<longrightarrow>
          invoke_return s1 val h out =
            Inr (s\<lparr>stack_index := stack_index s - P, pc := pc s + 3,
                   heap := h, printed := out\<rparr>))"
proof -
  define top where "top = take P (drop (stack_index s - P) (stack s))"
  have len_top: "length top = P"
    using assms(6,7) by (simp add: top_def)
  have nth_top: "top ! k = stack s ! (stack_index s - P + k)" if "k < P" for k
    using that assms(6,7) by (simp add: top_def)
  have cl: "callee_locals = top @ replicate (max_locals callee - P) 0"
    by (simp only: assms(10) top_def)
  have st: "step cls m s = Inr (Invoke callee callee_locals s1)"
    unfolding assms(10,11)
    using assms(1) op_invokestatic_result [OF assms(2) _ assms(4,5,6,7,8,9), of cls]
      assms(3)
    by (simp add: step_more int16_operand_eq_s16)
  have "length callee_locals = P + (max_locals callee - P)"
    unfolding cl by (simp only: length_append len_top length_replicate)
  with assms(9) have len: "length callee_locals = max_locals callee"
    by simp
  have order: "callee_locals ! (P - 1 - i) = stack s ! (stack_index s - 1 - i)" if "i < P" for i
  proof -
    from that have "callee_locals ! (P - 1 - i) = top ! (P - 1 - i)"
      by (simp add: cl nth_append len_top)
    also from that have "\<dots> = stack s ! (stack_index s - P + (P - 1 - i))"
      by (intro nth_top) simp
    also from that assms(6) have "stack_index s - P + (P - 1 - i) = stack_index s - 1 - i"
      by simp
    finally show ?thesis .
  qed
  have zero: "callee_locals ! j = 0" if "P \<le> j \<and> j < max_locals callee" for j
    using that by (auto simp: cl nth_append len_top)
  have pcs: "pc s < code_length m" using assms(2) by simp
  have run: "execute_loop (Suc fuel) cls m s =
         (case execute fuel callee callee_locals cls (heap s) (printed s) of
            None \<Rightarrow> None
          | Some (Inl e) \<Rightarrow> Some (Inl e)
          | Some (Inr (val, h, out)) \<Rightarrow>
              (case invoke_return s1 val h out of
                 Inl e \<Rightarrow> Some (Inl e)
               | Inr s2 \<Rightarrow> execute_loop fuel cls m s2))"
    using pcs st unfolding assms(11) by (simp add: execute_def)
  have push: "invoke_return s1 val h out =
            Inr (s\<lparr>stack := (stack s)[stack_index s - P := value val],
                   stack_index := stack_index s - P + 1, pc := pc s + 3,
                   heap := h, printed := out\<rparr>)"
    if "has_value val \<and> stack_index s1 < length (stack s)"
    using that by (simp add: invoke_return_def assms(11))
  have void: "invoke_return s1 val h out =
            Inr (s\<lparr>stack_index := stack_index s - P, pc := pc s + 3,
                   heap := h, printed := out\<rparr>)"
    if "\<not> has_value val"
    using that by (simp add: invoke_return_def assms(11))
  from st len order zero run push void show ?thesis by blast
qed

theorem invokestatic_passes_parameters_in_order_witness:
  "code call_first_parameter ! pc ((two_on_stack 1 2)\<lparr>pc := 2\<rparr>) = i_invokestatic
   \<and> pc ((two_on_stack 1 2)\<lparr>pc := 2\<rparr>) + 2 < code_length call_first_parameter
   \<and> get_number_of_parameters first_parameter = 2
   \<and> max_locals first_parameter = 2
   \<and> step example_class call_first_parameter ((two_on_stack 1 2)\<lparr>pc := 2\<rparr>) =
       Inr (Invoke first_parameter [1, 2]
              ((two_on_stack 1 2)\<lparr>pc := 2, stack_index := 0\<rparr>))
   \<and> invoke_return ((two_on_stack 1 2)\<lparr>pc := 2, stack_index := 0\<rparr>)
         \<lparr>has_value = True, value = 1\<rparr> [] [] =
       Inr \<lparr>pc = 5, stack_index = 1, stack = [1, 2], locals = [], heap = [], printed = []\<rparr>
   \<and> invoke_return ((two_on_stack 1 2)\<lparr>pc := 2, stack_index := 0\<rparr>)
         \<lparr>has_value = False, value = 0\<rparr> [] [] =
       Inr \<lparr>pc = 5, stack_index = 0, stack = [1, 2], locals = [], heap = [], printed = []\<rparr>
   \<and> execute 6 call_first_parameter [] example_class [] [] =
       Some (Inr (\<lparr>has_value = True, value = 1\<rparr>, [], []))"
proof -
  let ?s = "(two_on_stack 1 2)\<lparr>pc := 2\<rparr>"
  let ?s1 = "(two_on_stack 1 2)\<lparr>pc := 2, stack_index := 0\<rparr>"
  let ?one = "\<lparr>has_value = True, value = 1 :: int32\<rparr>"
  let ?void = "\<lparr>has_value = False, value = 0 :: int32\<rparr>"
  have op: "code call_first_parameter ! pc ?s = i_invokestatic"
    and len: "pc ?s + 2 < code_length call_first_parameter"
    and callee: "first_parameter = find_method_from_index example_class
           (word_of_int (spec_s16 (code call_first_parameter ! (pc ?s + 1))
                                  (code call_first_parameter ! (pc ?s + 2))))"
    and P: "2 = get_number_of_parameters first_parameter"
    and depth: "2 \<le> stack_index ?s" "stack_index ?s \<le> length (stack ?s)"
    and ml: "2 \<le> max_locals first_parameter" "max_locals first_parameter = 2"
    and lt: "[1, 2] = take 2 (drop (stack_index ?s - 2) (stack ?s))
               @ replicate (max_locals first_parameter - 2) 0"
    and s1: "?s1 = ?s\<lparr>stack_index := stack_index ?s - 2\<rparr>"
    by code_simp+
  have small: "(2 :: nat) < 2 ^ 15" by simp
  have size: "stack_index ?s < 2 ^ 64" by (simp add: two_on_stack_def)
  note th = invokestatic_passes_parameters_in_order
    [OF op len callee P small depth size ml(1) lt s1]
  from th have call: "step example_class call_first_parameter ?s =
       Inr (Invoke first_parameter [1, 2] ?s1)"
    by blast
  have "has_value ?one \<and> stack_index ?s1 < length (stack ?s)"
    by (simp add: two_on_stack_def)
  with th [where val = ?one and h = "[]" and out = "[]"]
  have "invoke_return ?s1 ?one [] [] =
      Inr (?s\<lparr>stack := (stack ?s)[stack_index ?s - 2 := value ?one],
              stack_index := stack_index ?s - 2 + 1, pc := pc ?s + 3,
              heap := [], printed := []\<rparr>)"
    by blast
  then have push: "invoke_return ?s1 ?one [] [] =
      Inr \<lparr>pc = 5, stack_index = 1, stack = [1, 2], locals = [], heap = [], printed = []\<rparr>"
    by (simp add: two_on_stack_def)
  have "\<not> has_value ?void" by simp
  with th [where val = ?void and h = "[]" and out = "[]"]
  have "invoke_return ?s1 ?void [] [] =
      Inr (?s\<lparr>stack_index := stack_index ?s - 2, pc := pc ?s + 3,
              heap := [], printed := []\<rparr>)"
    by blast
  then have void: "invoke_return ?s1 ?void [] [] =
      Inr \<lparr>pc = 5, stack_index = 0, stack = [1, 2], locals = [], heap = [], printed = []\<rparr>"
    by (simp add: two_on_stack_def)
  have run: "execute 6 call_first_parameter [] example_class [] [] =
       Some (Inr (\<lparr>has_value = True, value = 1\<rparr>, [], []))"
    by code_simp
  from call push void run op len P ml(2) show ?thesis by simp
qed

subsection \<open>Arrays\<close>

lemma zero_elements_unfold:
  "zero_elements arr i bound =
     (if i < bound then
        (case array_write arr i 0 of
           Inl e \<Rightarrow> Inl e
         | Inr arr' \<Rightarrow> zero_elements arr' (i + 1) bound)
      else Inr arr)"
  by (rule zero_elements.simps)

lemma replicate_update_same: "(replicate n x)[j := x] = replicate n x"
  by (induction n arbitrary: j) (auto split: nat.split)

lemma zero_elements_zeroed:
  assumes "0 \<le> i" "int k + i = int n"
  shows "zero_elements (replicate n 0) i (int n) = Inr (replicate n 0)"
  using assms
proof (induction k arbitrary: i)
  case 0
  then show ?case by (subst zero_elements_unfold) simp
next
  case (Suc k)
  then have "i < int n" by simp
  moreover have "(replicate n (0 :: int32))[nat i := 0] = replicate n 0"
    by (rule replicate_update_same)
  moreover have "zero_elements (replicate n 0) (i + 1) (int n) = Inr (replicate n 0)"
    using Suc.prems by (intro Suc.IH) simp_all
  ultimately show ?case
    using Suc.prems(1) by (subst zero_elements_unfold) simp
qed

lemma zero_elements_empty: "bound \<le> 1 \<Longrightarrow> zero_elements [] 1 bound = Inr []"
  by (subst zero_elements_unfold) simp

lemma sint_plus_one:
  fixes n :: int32
  assumes "sint n < 2 ^ 31 - 1"
  shows "c_add n 1 = Inr (n + 1)" "sint (n + 1) = sint n + 1"
proof -
  have lo: "- (2 ^ 31) \<le> sint n" using sint_ge [of n] by simp
  show "c_add n 1 = Inr (n + 1)"
    by (simp add: c_add_def)
  from lo assms have "sint (word_of_int (sint n + 1) :: int32) = sint n + 1"
    by (intro sint_int32_of_int) simp_all
  then show "sint (n + 1) = sint n + 1" by simp
qed

lemma sint_int_max_plus_one:
  fixes n :: int32
  assumes "\<not> sint n < 2 ^ 31 - 1"
  shows "sint (n + 1) < 0"
proof -
  from assms sint_lt [of n] have "sint n = 2 ^ 31 - 1" by simp
  then have "word_of_int (sint n) = (word_of_int (2 ^ 31 - 1) :: int32)" by simp
  then have "n = 0x7FFFFFFF" by simp
  then show ?thesis by simp
qed

lemma op_newarray_eq:
  "op_newarray s =
     (if 0 < stack_index s \<and> stack_index s \<le> length (stack s)
         \<and> 0 \<le> sint (stack s ! (stack_index s - 1))
         \<and> sint (stack s ! (stack_index s - 1)) < 2 ^ 31 - 1
      then Inr (Running
        (s\<lparr>stack := (stack s)[stack_index s - 1 := word_of_nat (length (heap s))],
           heap := heap s @ [new_int_array (stack s ! (stack_index s - 1))],
           pc := pc s + 2\<rparr>))
      else Inl Undefined)"
proof (cases "0 < stack_index s \<and> stack_index s \<le> length (stack s)")
  case False
  then have "array_read (stack s) (int (stack_index s) - 1) = Inl Undefined"
    by (auto simp: array_read_def)
  then have "op_newarray s = Inl Undefined" by (simp add: op_newarray_def)
  with False show ?thesis by auto
next
  case True
  let ?n = "stack s ! (stack_index s - 1)"
  from True have rd: "array_read (stack s) (int (stack_index s) - 1) = Inr ?n"
    by simp
  show ?thesis
  proof (cases "sint ?n < 2 ^ 31 - 1")
    case False
    then have neg: "sint (?n + 1) < 0" by (rule sint_int_max_plus_one)
    then have "calloc_int32 (sint (?n + 1)) = []" by (simp add: calloc_int32_def)
    moreover from neg have "zero_elements [] 1 (sint (?n + 1)) = Inr []"
      by (intro zero_elements_empty) simp
    ultimately show ?thesis
      using False True rd by (simp add: op_newarray_def c_add_def array_write_def)
  next
    case small: True
    note cnt = sint_plus_one [OF small]
    show ?thesis
    proof (cases "0 \<le> sint ?n")
      case False
      then have "calloc_int32 (sint ?n + 1) = []" by (simp add: calloc_int32_def)
      moreover from False have "zero_elements [] 1 (sint ?n + 1) = Inr []"
        by (intro zero_elements_empty) simp
      ultimately show ?thesis
        using False True rd cnt by (simp add: op_newarray_def array_write_def)
    next
      case nonneg: True
      define k where "k = nat (sint ?n)"
      from nonneg have k: "sint ?n + 1 = int (Suc k)" by (simp add: k_def)
      have al: "calloc_int32 (sint ?n + 1) = replicate (Suc k) 0"
        by (simp only: k calloc_int32_def nat_int)
      have ze: "zero_elements (replicate (Suc k) 0) 1 (sint ?n + 1) = Inr (replicate (Suc k) 0)"
        unfolding k by (rule zero_elements_zeroed [of 1 k]) simp_all
      have wr: "array_write (replicate (Suc k) 0) 0 ?n = Inr (new_int_array ?n)"
        by (simp add: new_int_array_def k_def)
      from True nonneg small rd cnt al ze wr show ?thesis
        by (simp add: op_newarray_def heap_add_def)
    qed
  qed
qed

lemma newarray_sequence_result:
  assumes "newarray_sequence s Ls = Inr (rs, s')"
  shows "heap s' = heap s @ map new_int_array Ls
    \<and> length rs = length Ls
    \<and> (\<forall>i < length Ls. rs ! i = word_of_nat (length (heap s) + i))
    \<and> (\<forall>L \<in> set Ls. 0 \<le> sint L \<and> sint L < 2 ^ 31 - 1)"
  using assms
proof (induction Ls arbitrary: s rs)
  case Nil
  then show ?case by simp
next
  case (Cons n ns)
  let ?t = "s\<lparr>stack := (stack s)[stack_index s - 1 := n]\<rparr>"
  from Cons.prems obtain s1 rs1 where
    new: "op_newarray ?t = Inr (Running s1)"
    and rest: "newarray_sequence s1 ns = Inr (rs1, s')"
    and rs: "rs = stack s1 ! (stack_index s1 - 1) # rs1"
    by (auto split: sum.splits step_result.splits)
  from new have ok: "0 < stack_index s \<and> stack_index s \<le> length (stack s)
      \<and> 0 \<le> sint n \<and> sint n < 2 ^ 31 - 1"
    and s1: "s1 = ?t\<lparr>stack := (stack ?t)[stack_index s - 1 := word_of_nat (length (heap s))],
                   heap := heap s @ [new_int_array n], pc := pc s + 2\<rparr>"
    unfolding op_newarray_eq [of ?t] by (auto split: if_splits)
  from s1 ok have top: "stack s1 ! (stack_index s1 - 1) = word_of_nat (length (heap s))"
    and h1: "heap s1 = heap s @ [new_int_array n]"
    by auto
  from Cons.IH [OF rest] have
    hs: "heap s' = heap s1 @ map new_int_array ns"
    and len: "length rs1 = length ns"
    and rs1: "\<forall>i < length ns. rs1 ! i = word_of_nat (length (heap s1) + i)"
    and all: "\<forall>L \<in> set ns. 0 \<le> sint L \<and> sint L < 2 ^ 31 - 1"
    by simp_all
  have "rs ! i = word_of_nat (length (heap s) + i)" if "i < length (n # ns)" for i
  proof (cases i)
    case 0
    with top show ?thesis by (simp add: rs)
  next
    case (Suc j)
    with that have "j < length ns" by simp
    with rs1 have "rs1 ! j = word_of_nat (length (heap s1) + j)" by blast
    with Suc show ?thesis by (simp add: rs h1)
  qed
  with hs h1 all ok len rs show ?case by simp
qed

lemma newarray_sequence_runs:
  assumes "0 < stack_index s" "stack_index s \<le> length (stack s)"
    and "\<forall>L \<in> set Ls. 0 \<le> sint L \<and> sint L < 2 ^ 31 - 1"
  shows "\<exists>rs s'. newarray_sequence s Ls = Inr (rs, s')"
  using assms
proof (induction Ls arbitrary: s)
  case Nil
  then show ?case by simp
next
  case (Cons n ns)
  let ?t = "s\<lparr>stack := (stack s)[stack_index s - 1 := n]\<rparr>"
  let ?s1 = "?t\<lparr>stack := (stack ?t)[stack_index s - 1 := word_of_nat (length (heap s))],
                   heap := heap s @ [new_int_array n], pc := pc s + 2\<rparr>"
  from Cons.prems have new: "op_newarray ?t = Inr (Running ?s1)"
    unfolding op_newarray_eq [of ?t] by simp
  from Cons.prems have "\<exists>rs s'. newarray_sequence ?s1 ns = Inr (rs, s')"
    by (intro Cons.IH) simp_all
  then obtain rs s' where "newarray_sequence ?s1 ns = Inr (rs, s')" by blast
  with new show ?case by simp
qed

lemma sint_reference:
  assumes "k < 2 ^ 31"
  shows "sint (word_of_nat k :: int32) = int k"
proof -
  from assms have "int k < 2 ^ 31"
    by (metis of_nat_less_iff of_nat_numeral of_nat_power)
  then have "sint (word_of_int (int k) :: int32) = int k"
    by (intro sint_int32_of_int) simp_all
  then show ?thesis by simp
qed

lemma newarray_sequence_reference:
  assumes "newarray_sequence s Ls = Inr (rs, s')" and "i < length Ls"
    and "length (heap s) + length Ls \<le> 2 ^ 31"
  shows "heap_get (heap s') (rs ! i) = Inr (new_int_array (Ls ! i))"
    and "sint (rs ! i) = int (length (heap s) + i)"
    and "0 \<le> sint (Ls ! i)"
proof -
  note r = newarray_sequence_result [OF assms(1)]
  from r assms(2) have ri: "rs ! i = word_of_nat (length (heap s) + i)" by simp
  from assms(2,3) have "length (heap s) + i < 2 ^ 31" by simp
  then show s: "sint (rs ! i) = int (length (heap s) + i)"
    unfolding ri by (rule sint_reference)
  from r assms(2) have "(heap s') ! (length (heap s) + i) = new_int_array (Ls ! i)"
    by (simp add: nth_append)
  moreover from r assms(2) have "length (heap s) + i < length (heap s')" by simp
  ultimately show "heap_get (heap s') (rs ! i) = Inr (new_int_array (Ls ! i))"
    by (simp add: heap_get_def s array_read_def nat_add_distrib)
  from r assms(2) show "0 \<le> sint (Ls ! i)" by simp
qed

lemma op_arraylength_result:
  assumes "0 < stack_index t" "stack_index t \<le> length (stack t)"
    and "heap_get (heap t) (stack t ! (stack_index t - 1)) = Inr arr" "arr \<noteq> []"
  shows "op_arraylength t =
    Inr (Running (t\<lparr>stack := (stack t)[stack_index t - 1 := arr ! 0], pc := pc t + 1\<rparr>))"
  using assms by (simp add: op_arraylength_def)

lemma op_iaload_result:
  assumes "2 \<le> stack_index t" "stack_index t \<le> length (stack t)"
    and "heap_get (heap t) (stack t ! (stack_index t - 2)) = Inr arr"
    and "j = stack t ! (stack_index t - 1)"
    and "0 \<le> sint j" "sint j + 1 < int (length arr)" "sint j < 2 ^ 31 - 1"
  shows "op_iaload t =
    Inr (Running (t\<lparr>stack := (stack t)[stack_index t - 2 := arr ! nat (sint j + 1)],
                     stack_index := stack_index t - 1, pc := pc t + 1\<rparr>))"
proof -
  note cnt = sint_plus_one [OF assms(7)]
  from assms cnt show ?thesis by (simp add: op_iaload_def)
qed

lemma op_iastore_result:
  assumes "3 \<le> stack_index t" "stack_index t \<le> length (stack t)"
    and "r = stack t ! (stack_index t - 3)"
    and "heap_get (heap t) r = Inr arr"
    and "j = stack t ! (stack_index t - 2)"
    and "0 \<le> sint j" "sint j + 1 < int (length arr)" "sint j < 2 ^ 31 - 1"
  shows "op_iastore t =
    Inr (Running (t\<lparr>heap := (heap t)[nat (sint r) :=
                               arr[nat (sint j + 1) := stack t ! (stack_index t - 1)]],
                     stack_index := stack_index t - 3, pc := pc t + 1\<rparr>))"
proof -
  note cnt = sint_plus_one [OF assms(8)]
  from assms(4) have r: "0 \<le> sint r" "sint r < int (length (heap t))"
    by (auto simp: heap_get_def array_read_eq_Inr)
  from assms cnt r show ?thesis by (simp add: op_iastore_def heap_put_def)
qed

lemma heap_get_updated:
  assumes "heap_get h r = Inr arr"
  shows "heap_get (h[nat (sint r) := arr']) r = Inr arr'"
  using assms by (auto simp: heap_get_def array_read_eq_Inr)

lemma new_int_array_facts:
  "new_int_array L \<noteq> []" "new_int_array L ! 0 = L"
  "length (new_int_array L) = Suc (nat (sint L))"
  "0 \<le> sint j \<Longrightarrow> sint j < sint L \<Longrightarrow> new_int_array L ! nat (sint j + 1) = 0"
  by (auto simp: new_int_array_def nat_add_distrib)

text \<open>
  C3. For any sequence of \<open>newarray\<close> executions with lengths \<open>L\<^sub>1 .. L\<^sub>n\<close> (each a length
  \<open>newarray\<close> can serve: \<open>0 \<le> L < 2 ^ 31 - 1\<close>; with these the executions do return
  references), each returned reference \<open>r\<^sub>i\<close> refers to a zeroed array: \<open>arraylength\<close> on
  \<open>r\<^sub>i\<close> yields \<open>L\<^sub>i\<close>, \<open>iaload\<close> yields 0 at every index \<open>j\<close> in \<open>[0, L\<^sub>i)\<close>, and \<open>iastore\<close>
  of \<open>v\<close> at \<open>(r\<^sub>i, j)\<close> followed by \<open>iaload\<close> at \<open>(r\<^sub>i, j)\<close> yields \<open>v\<close>. A reference is an
  \<open>int32_t\<close>, so the heap is taken to hold at most \<open>2 ^ 31\<close> arrays.
\<close>

theorem newarray_references_round_trip:
  assumes "length (heap s) + length Ls \<le> 2 ^ 31"
  shows
    "(0 < stack_index s \<and> stack_index s \<le> length (stack s)
        \<and> (\<forall>L \<in> set Ls. 0 \<le> sint L \<and> sint L < 2 ^ 31 - 1) \<longrightarrow>
        (\<exists>rs s'. newarray_sequence s Ls = Inr (rs, s')))
     \<and> (newarray_sequence s Ls = Inr (rs, s') \<and> i < length Ls \<longrightarrow>
          length rs = length Ls
          \<and> (\<forall>t. 0 < stack_index t \<and> stack_index t \<le> length (stack t)
                \<and> heap t = heap s' \<and> stack t ! (stack_index t - 1) = rs ! i \<longrightarrow>
                op_arraylength t =
                  Inr (Running (t\<lparr>stack := (stack t)[stack_index t - 1 := Ls ! i],
                                   pc := pc t + 1\<rparr>)))
          \<and> (\<forall>t j. 2 \<le> stack_index t \<and> stack_index t \<le> length (stack t)
                \<and> heap t = heap s' \<and> stack t ! (stack_index t - 2) = rs ! i
                \<and> stack t ! (stack_index t - 1) = j
                \<and> 0 \<le> sint j \<and> sint j < sint (Ls ! i) \<longrightarrow>
                op_iaload t =
                  Inr (Running (t\<lparr>stack := (stack t)[stack_index t - 2 := 0],
                                   stack_index := stack_index t - 1, pc := pc t + 1\<rparr>)))
          \<and> (\<forall>t j v. 3 \<le> stack_index t \<and> stack_index t \<le> length (stack t)
                \<and> heap t = heap s' \<and> stack t ! (stack_index t - 3) = rs ! i
                \<and> stack t ! (stack_index t - 2) = j \<and> stack t ! (stack_index t - 1) = v
                \<and> 0 \<le> sint j \<and> sint j < sint (Ls ! i) \<longrightarrow>
                (\<exists>t'. op_iastore t = Inr (Running t')
                   \<and> stack_index t' = stack_index t - 3 \<and> pc t' = pc t + 1
                   \<and> (\<forall>u. 2 \<le> stack_index u \<and> stack_index u \<le> length (stack u)
                         \<and> heap u = heap t' \<and> stack u ! (stack_index u - 2) = rs ! i
                         \<and> stack u ! (stack_index u - 1) = j \<longrightarrow>
                         op_iaload u =
                           Inr (Running (u\<lparr>stack := (stack u)[stack_index u - 2 := v],
                                            stack_index := stack_index u - 1,
                                            pc := pc u + 1\<rparr>))))))
     \<and> (code m ! pc s = i_newarray \<longrightarrow> step cls m s = op_newarray s)
     \<and> (code m ! pc s = i_arraylength \<longrightarrow> step cls m s = op_arraylength s)
     \<and> (code m ! pc s = i_iastore \<longrightarrow> step cls m s = op_iastore s)
     \<and> (code m ! pc s = i_iaload \<longrightarrow> step cls m s = op_iaload s)"
proof (intro conjI impI)
  assume "0 < stack_index s \<and> stack_index s \<le> length (stack s)
        \<and> (\<forall>L \<in> set Ls. 0 \<le> sint L \<and> sint L < 2 ^ 31 - 1)"
  then show "\<exists>rs s'. newarray_sequence s Ls = Inr (rs, s')"
    by (intro newarray_sequence_runs) simp_all
next
  assume a: "newarray_sequence s Ls = Inr (rs, s') \<and> i < length Ls"
  then have seq: "newarray_sequence s Ls = Inr (rs, s')" and i: "i < length Ls"
    by simp_all
  note get = newarray_sequence_reference(1) [OF seq i assms]
  note nonneg = newarray_sequence_reference(3) [OF seq i assms]
  from newarray_sequence_result [OF seq] i
  have small: "sint (Ls ! i) < 2 ^ 31 - 1" and len: "length rs = length Ls"
    by simp_all
  let ?arr = "new_int_array (Ls ! i)"
  from len show "length rs = length Ls" .
  show "\<forall>t. 0 < stack_index t \<and> stack_index t \<le> length (stack t)
                \<and> heap t = heap s' \<and> stack t ! (stack_index t - 1) = rs ! i \<longrightarrow>
                op_arraylength t =
                  Inr (Running (t\<lparr>stack := (stack t)[stack_index t - 1 := Ls ! i],
                                   pc := pc t + 1\<rparr>))"
  proof (intro allI impI)
    fix t :: state
    assume t: "0 < stack_index t \<and> stack_index t \<le> length (stack t)
                \<and> heap t = heap s' \<and> stack t ! (stack_index t - 1) = rs ! i"
    then have "heap_get (heap t) (stack t ! (stack_index t - 1)) = Inr ?arr"
      using get by simp
    with t have "op_arraylength t =
        Inr (Running (t\<lparr>stack := (stack t)[stack_index t - 1 := ?arr ! 0], pc := pc t + 1\<rparr>))"
      by (intro op_arraylength_result) (simp_all add: new_int_array_facts)
    then show "op_arraylength t =
                  Inr (Running (t\<lparr>stack := (stack t)[stack_index t - 1 := Ls ! i],
                                   pc := pc t + 1\<rparr>))"
      by (simp only: new_int_array_facts)
  qed
  have load: "op_iaload u =
        Inr (Running (u\<lparr>stack := (stack u)[stack_index u - 2 := arr ! nat (sint j + 1)],
                         stack_index := stack_index u - 1, pc := pc u + 1\<rparr>))"
    if "2 \<le> stack_index u \<and> stack_index u \<le> length (stack u)
          \<and> stack u ! (stack_index u - 2) = rs ! i \<and> stack u ! (stack_index u - 1) = j"
      and "heap_get (heap u) (rs ! i) = Inr arr" and "length arr = Suc (nat (sint (Ls ! i)))"
      and "0 \<le> sint j \<and> sint j < sint (Ls ! i)"
    for u :: state and j arr
    using that small by (intro op_iaload_result) simp_all
  show "\<forall>t j. 2 \<le> stack_index t \<and> stack_index t \<le> length (stack t)
                \<and> heap t = heap s' \<and> stack t ! (stack_index t - 2) = rs ! i
                \<and> stack t ! (stack_index t - 1) = j
                \<and> 0 \<le> sint j \<and> sint j < sint (Ls ! i) \<longrightarrow>
                op_iaload t =
                  Inr (Running (t\<lparr>stack := (stack t)[stack_index t - 2 := 0],
                                   stack_index := stack_index t - 1, pc := pc t + 1\<rparr>))"
  proof (intro allI impI)
    fix t :: state and j
    assume t: "2 \<le> stack_index t \<and> stack_index t \<le> length (stack t)
                \<and> heap t = heap s' \<and> stack t ! (stack_index t - 2) = rs ! i
                \<and> stack t ! (stack_index t - 1) = j
                \<and> 0 \<le> sint j \<and> sint j < sint (Ls ! i)"
    then have "op_iaload t =
        Inr (Running (t\<lparr>stack := (stack t)[stack_index t - 2 := ?arr ! nat (sint j + 1)],
                         stack_index := stack_index t - 1, pc := pc t + 1\<rparr>))"
      using get by (intro load) (simp_all add: new_int_array_facts)
    moreover from t have "?arr ! nat (sint j + 1) = 0"
      by (simp add: new_int_array_facts)
    ultimately show "op_iaload t =
                  Inr (Running (t\<lparr>stack := (stack t)[stack_index t - 2 := 0],
                                   stack_index := stack_index t - 1, pc := pc t + 1\<rparr>))"
      by simp
  qed
  show "\<forall>t j v. 3 \<le> stack_index t \<and> stack_index t \<le> length (stack t)
                \<and> heap t = heap s' \<and> stack t ! (stack_index t - 3) = rs ! i
                \<and> stack t ! (stack_index t - 2) = j \<and> stack t ! (stack_index t - 1) = v
                \<and> 0 \<le> sint j \<and> sint j < sint (Ls ! i) \<longrightarrow>
                (\<exists>t'. op_iastore t = Inr (Running t')
                   \<and> stack_index t' = stack_index t - 3 \<and> pc t' = pc t + 1
                   \<and> (\<forall>u. 2 \<le> stack_index u \<and> stack_index u \<le> length (stack u)
                         \<and> heap u = heap t' \<and> stack u ! (stack_index u - 2) = rs ! i
                         \<and> stack u ! (stack_index u - 1) = j \<longrightarrow>
                         op_iaload u =
                           Inr (Running (u\<lparr>stack := (stack u)[stack_index u - 2 := v],
                                            stack_index := stack_index u - 1,
                                            pc := pc u + 1\<rparr>))))"
  proof (intro allI impI)
    fix t :: state and j v
    assume t: "3 \<le> stack_index t \<and> stack_index t \<le> length (stack t)
                \<and> heap t = heap s' \<and> stack t ! (stack_index t - 3) = rs ! i
                \<and> stack t ! (stack_index t - 2) = j \<and> stack t ! (stack_index t - 1) = v
                \<and> 0 \<le> sint j \<and> sint j < sint (Ls ! i)"
    let ?arr' = "?arr[nat (sint j + 1) := v]"
    let ?t' = "t\<lparr>heap := (heap t)[nat (sint (rs ! i)) := ?arr'],
                 stack_index := stack_index t - 3, pc := pc t + 1\<rparr>"
    from t get have g: "heap_get (heap t) (rs ! i) = Inr ?arr" by simp
    from t small have st: "op_iastore t =
        Inr (Running (t\<lparr>heap := (heap t)[nat (sint (rs ! i)) :=
                                   ?arr[nat (sint j + 1) := stack t ! (stack_index t - 1)]],
                         stack_index := stack_index t - 3, pc := pc t + 1\<rparr>))"
      by (intro op_iastore_result [OF _ _ _ g]) (simp_all add: new_int_array_facts)
    with t have st': "op_iastore t = Inr (Running ?t')" by simp
    have load_back: "op_iaload u =
        Inr (Running (u\<lparr>stack := (stack u)[stack_index u - 2 := v],
                         stack_index := stack_index u - 1, pc := pc u + 1\<rparr>))"
      if u: "2 \<le> stack_index u \<and> stack_index u \<le> length (stack u)
            \<and> heap u = heap ?t' \<and> stack u ! (stack_index u - 2) = rs ! i
            \<and> stack u ! (stack_index u - 1) = j" for u :: state
    proof -
      from u heap_get_updated [OF g, of ?arr']
      have "heap_get (heap u) (rs ! i) = Inr ?arr'" by simp
      with u t have "op_iaload u =
          Inr (Running (u\<lparr>stack := (stack u)[stack_index u - 2 := ?arr' ! nat (sint j + 1)],
                           stack_index := stack_index u - 1, pc := pc u + 1\<rparr>))"
        by (intro load) (simp_all add: new_int_array_facts)
      moreover from t have "?arr' ! nat (sint j + 1) = v"
        by (simp add: new_int_array_facts nat_add_distrib)
      ultimately show ?thesis by simp
    qed
    from st' load_back show "\<exists>t'. op_iastore t = Inr (Running t')
                   \<and> stack_index t' = stack_index t - 3 \<and> pc t' = pc t + 1
                   \<and> (\<forall>u. 2 \<le> stack_index u \<and> stack_index u \<le> length (stack u)
                         \<and> heap u = heap t' \<and> stack u ! (stack_index u - 2) = rs ! i
                         \<and> stack u ! (stack_index u - 1) = j \<longrightarrow>
                         op_iaload u =
                           Inr (Running (u\<lparr>stack := (stack u)[stack_index u - 2 := v],
                                            stack_index := stack_index u - 1,
                                            pc := pc u + 1\<rparr>)))"
      by (intro exI [of _ ?t']) simp
  qed
next
  assume "code m ! pc s = i_newarray"
  then show "step cls m s = op_newarray s" by (rule step_more)
next
  assume "code m ! pc s = i_arraylength"
  then show "step cls m s = op_arraylength s" by (rule step_more)
next
  assume "code m ! pc s = i_iastore"
  then show "step cls m s = op_iastore s" by (rule step_more)
next
  assume "code m ! pc s = i_iaload"
  then show "step cls m s = op_iaload s" by (rule step_more)
qed

theorem newarray_references_round_trip_witness:
  "length (heap (frame_with [0] [])) + length [3, 2 :: int32] \<le> 2 ^ 31
   \<and> newarray_sequence (frame_with [0] []) [3, 2] =
       Inr ([0, 1], (frame_with [1] [[3, 0, 0, 0], [2, 0, 0]])\<lparr>pc := 4\<rparr>)
   \<and> (1 :: nat) < length [3, 2 :: int32]
   \<and> op_arraylength (frame_with [1] [[3, 0, 0, 0], [2, 0, 0]]) =
       Inr (Running ((frame_with [2] [[3, 0, 0, 0], [2, 0, 0]])\<lparr>pc := 1\<rparr>))
   \<and> op_iastore (frame_with [1, 1, 30] [[3, 0, 0, 0], [2, 0, 0]]) =
       Inr (Running ((frame_with [1, 1, 30] [[3, 0, 0, 0], [2, 0, 30]])
                       \<lparr>stack_index := 0, pc := 1\<rparr>))
   \<and> op_iaload (frame_with [1, 1] [[3, 0, 0, 0], [2, 0, 30]]) =
       Inr (Running ((frame_with [30, 1] [[3, 0, 0, 0], [2, 0, 30]])
                       \<lparr>stack_index := 1, pc := 1\<rparr>))"
proof -
  let ?H = "[[3, 0, 0, 0], [2, 0, 0 :: int32]]"
  let ?s' = "(frame_with [1] ?H)\<lparr>pc := 4\<rparr>"
  let ?t = "frame_with [1] ?H"
  have bound: "length (heap (frame_with [0] [])) + length [3, 2 :: int32] \<le> 2 ^ 31"
    by (simp add: frame_with_def)
  have seq: "newarray_sequence (frame_with [0] []) [3, 2] = Inr ([0, 1], ?s')"
    by code_simp
  have i: "(1 :: nat) < length [3, 2 :: int32]" by simp
  have t: "0 < stack_index ?t \<and> stack_index ?t \<le> length (stack ?t)
      \<and> heap ?t = heap ?s' \<and> stack ?t ! (stack_index ?t - 1) = [0, 1] ! 1"
    by code_simp
  from seq i t newarray_references_round_trip
    [OF bound, where rs = "[0, 1]" and s' = ?s' and i = 1]
  have "op_arraylength ?t =
      Inr (Running (?t\<lparr>stack := (stack ?t)[stack_index ?t - 1 := [3, 2] ! 1],
                        pc := pc ?t + 1\<rparr>))"
    by blast
  also have "\<dots> = Inr (Running ((frame_with [2] ?H)\<lparr>pc := 1\<rparr>))"
    by code_simp
  finally have len: "op_arraylength ?t = Inr (Running ((frame_with [2] ?H)\<lparr>pc := 1\<rparr>))" .
  have store: "op_iastore (frame_with [1, 1, 30] ?H) =
       Inr (Running ((frame_with [1, 1, 30] [[3, 0, 0, 0], [2, 0, 30]])
                       \<lparr>stack_index := 0, pc := 1\<rparr>))"
    and load: "op_iaload (frame_with [1, 1] [[3, 0, 0, 0], [2, 0, 30]]) =
       Inr (Running ((frame_with [30, 1] [[3, 0, 0, 0], [2, 0, 30]])
                       \<lparr>stack_index := 1, pc := 1\<rparr>))"
    by code_simp+
  from bound seq i len store load show ?thesis by blast
qed

subsection \<open>Well-formed instructions and the stack depth\<close>

lemma wf_bytes: "well_formed_at cls m s \<Longrightarrow> pc s + operand_bytes (code m ! pc s) < code_length m"
  by (simp add: well_formed_at_def Let_def)

lemma wf_pops: "well_formed_at cls m s \<Longrightarrow> spec_pops (code m ! pc s) \<le> stack_index s"
  by (simp add: well_formed_at_def Let_def)

lemma wf_room:
  "well_formed_at cls m s \<Longrightarrow> spec_stack_delta (code m ! pc s) = Some d \<Longrightarrow>
     int (stack_index s) + d \<le> int (max_stack m)"
  by (simp add: well_formed_at_def Let_def)

lemma wf_local:
  "well_formed_at cls m s \<Longrightarrow> local_slot m s = Some n \<Longrightarrow> n < length (locals s)"
  by (simp add: well_formed_at_def Let_def)

lemma wf_ldc:
  "well_formed_at cls m s \<Longrightarrow> code m ! pc s = i_ldc \<Longrightarrow>
     1 \<le> unat (code m ! (pc s + 1)) \<and> unat (code m ! (pc s + 1)) \<le> length (constant_pool cls)"
  by (simp add: well_formed_at_def Let_def)

lemma wf_divide:
  "well_formed_at cls m s \<Longrightarrow> code m ! pc s = i_idiv \<or> code m ! pc s = i_irem \<Longrightarrow>
     stack s ! (stack_index s - 1) \<noteq> 0
     \<and> \<not> (sint (stack s ! (stack_index s - 2)) = - (2 ^ 31)
           \<and> sint (stack s ! (stack_index s - 1)) = - 1)"
  by (auto simp: well_formed_at_def Let_def)

lemma wf_newarray:
  "well_formed_at cls m s \<Longrightarrow> code m ! pc s = i_newarray \<Longrightarrow>
     0 \<le> sint (stack s ! (stack_index s - 1)) \<and> sint (stack s ! (stack_index s - 1)) < 2 ^ 31 - 1"
  by (simp add: well_formed_at_def Let_def)

lemma wf_arraylength:
  "well_formed_at cls m s \<Longrightarrow> code m ! pc s = i_arraylength \<Longrightarrow>
     valid_reference (heap s) (stack s ! (stack_index s - 1))"
  by (simp add: well_formed_at_def Let_def)

lemma wf_iaload:
  "well_formed_at cls m s \<Longrightarrow> code m ! pc s = i_iaload \<Longrightarrow>
     valid_element (heap s) (stack s ! (stack_index s - 2)) (stack s ! (stack_index s - 1))"
  by (simp add: well_formed_at_def Let_def)

lemma wf_iastore:
  "well_formed_at cls m s \<Longrightarrow> code m ! pc s = i_iastore \<Longrightarrow>
     valid_element (heap s) (stack s ! (stack_index s - 3)) (stack s ! (stack_index s - 2))"
  by (simp add: well_formed_at_def Let_def)

lemma wf_invokestatic:
  "well_formed_at cls m s \<Longrightarrow> code m ! pc s = i_invokestatic \<Longrightarrow>
     callee = find_method_from_index cls
                (word_of_int (spec_s16 (code m ! (pc s + 1)) (code m ! (pc s + 2)))) \<Longrightarrow>
     get_number_of_parameters callee \<le> stack_index s
     \<and> get_number_of_parameters callee < 2 ^ 15
     \<and> get_number_of_parameters callee \<le> max_locals callee"
  by (simp add: well_formed_at_def Let_def)


text \<open>Each branch of the dispatch loop completes on the operands it needs.\<close>

lemma code_at_in_code: "i < code_length m \<Longrightarrow> code_at m i = Inr (code m ! i)"
  by (simp add: code_at_def code_length_def)

lemma local_index_in_range:
  fixes x :: u1
  assumes "unat x < n"
  shows "uint x < int n"
proof -
  from assms have "int (unat x) < int n" by (simp only: of_nat_less_iff)
  then show ?thesis by (simp only: uint_nat)
qed

lemma pool_index_in_range:
  fixes x :: u1
  assumes "1 \<le> unat x" "unat x \<le> n"
  shows "0 \<le> uint x - 1" "uint x - 1 < int n"
  unfolding uint_nat using assms by linarith+

lemma push_completes:
  assumes "stack_index s < length (stack s)"
  shows "pc s + 1 < code_length m \<Longrightarrow> \<exists>s'. op_bipush m s = Inr (Running s')"
    and "\<exists>s'. op_iconst i s = Inr (Running s')"
    and "pc s + 2 < code_length m \<Longrightarrow> \<exists>s'. op_sipush m s = Inr (Running s')"
    and "pc s + 1 < code_length m \<Longrightarrow> unat (code m ! (pc s + 1)) < length (locals s) \<Longrightarrow>
           \<exists>s'. op_load m s = Inr (Running s')"
    and "0 \<le> n \<Longrightarrow> n < int (length (locals s)) \<Longrightarrow> \<exists>s'. op_load_n n s = Inr (Running s')"
    and "0 < stack_index s \<Longrightarrow> \<exists>s'. op_dup s = Inr (Running s')"
  using assms
  by (simp_all add: op_bipush_def op_iconst_def op_sipush_def op_load_def op_load_n_def
      op_dup_def code_at_in_code Let_def local_index_in_range)

lemma ldc_completes:
  assumes "stack_index s < length (stack s)" "pc s + 1 < code_length m"
    and "1 \<le> unat (code m ! (pc s + 1))"
    and "unat (code m ! (pc s + 1)) \<le> length (constant_pool cls)"
  shows "\<exists>s'. op_ldc cls m s = Inr (Running s')"
proof -
  let ?i = "uint (code m ! (pc s + 1)) - 1"
  from pool_index_in_range [OF assms(3,4)]
  have "array_read (constant_pool cls) ?i = Inr (constant_pool cls ! nat ?i)"
    by (rule array_read_in_range)
  with assms(1,2) show ?thesis
    by (simp add: op_ldc_def code_at_in_code)
qed

lemma pop_completes:
  assumes "0 < stack_index s" "stack_index s \<le> length (stack s)"
  shows "pc s + 1 < code_length m \<Longrightarrow> unat (code m ! (pc s + 1)) < length (locals s) \<Longrightarrow>
           \<exists>s'. op_store m s = Inr (Running s')"
    and "0 \<le> n \<Longrightarrow> n < int (length (locals s)) \<Longrightarrow> \<exists>s'. op_store_n n s = Inr (Running s')"
    and "\<exists>s'. op_ineg s = Inr (Running s')"
    and "pc s + 2 < code_length m \<Longrightarrow> \<exists>s'. op_if holds m s = Inr (Running s')"
    and "\<exists>s'. op_invokevirtual s = Inr (Running s')"
  using assms
  by (simp_all add: op_store_def op_store_n_def op_ineg_def op_if_result op_invokevirtual_def
      c_mul_def code_at_in_code local_index_in_range)

lemma pop2_completes:
  assumes "2 \<le> stack_index s" "stack_index s \<le> length (stack s)"
  shows "\<exists>s'. op_binary c_add s = Inr (Running s')"
    and "\<exists>s'. op_binary c_sub s = Inr (Running s')"
    and "\<exists>s'. op_binary c_mul s = Inr (Running s')"
    and "\<exists>s'. op_binary c_and s = Inr (Running s')"
    and "\<exists>s'. op_binary c_or s = Inr (Running s')"
    and "\<exists>s'. op_binary c_xor s = Inr (Running s')"
    and "\<exists>s'. op_binary c_shl s = Inr (Running s')"
    and "\<exists>s'. op_binary c_shr s = Inr (Running s')"
    and "\<exists>s'. op_binary c_ushr s = Inr (Running s')"
    and "pc s + 2 < code_length m \<Longrightarrow> \<exists>s'. op_if_icmp compare m s = Inr (Running s')"
  using assms
  by (simp_all add: op_binary_result c_add_def c_sub_def c_mul_def c_and_def c_or_def
      c_xor_def c_shl_def c_shr_def c_ushr_def op_if_icmp_def branch_in_code)

lemma divide_completes:
  assumes "2 \<le> stack_index s" "stack_index s \<le> length (stack s)"
    and "stack s ! (stack_index s - 1) \<noteq> 0"
    and "\<not> (sint (stack s ! (stack_index s - 2)) = - (2 ^ 31)
            \<and> sint (stack s ! (stack_index s - 1)) = - 1)"
  shows "\<exists>s'. op_divide c_div s = Inr (Running s')"
    and "\<exists>s'. op_divide c_rem s = Inr (Running s')"
  using assms by (simp_all add: op_divide_result c_div_defined c_rem_defined)

lemma keep_completes:
  shows "pc s + 2 < code_length m \<Longrightarrow> unat (code m ! (pc s + 1)) < length (locals s) \<Longrightarrow>
           \<exists>s'. op_iinc m s = Inr (Running s')"
    and "pc s + 2 < code_length m \<Longrightarrow> \<exists>s'. op_goto m s = Inr (Running s')"
    and "\<exists>s'. op_nop s = Inr (Running s')"
    and "\<exists>s'. op_getstatic s = Inr (Running s')"
  by (simp_all add: op_iinc_def op_goto_def op_nop_def op_getstatic_def branch_in_code
      c_add_def code_at_in_code local_index_in_range)

lemma newarray_completes:
  assumes "0 < stack_index s" "stack_index s \<le> length (stack s)"
    and "0 \<le> sint (stack s ! (stack_index s - 1))"
    and "sint (stack s ! (stack_index s - 1)) < 2 ^ 31 - 1"
  shows "\<exists>s'. op_newarray s = Inr (Running s')"
  using assms by (simp add: op_newarray_eq)

lemma heap_get_valid:
  "valid_reference h r \<Longrightarrow> heap_get h r = Inr (h ! nat (sint r))"
  by (simp add: valid_reference_def heap_get_def)

lemma arraylength_completes:
  assumes "0 < stack_index s" "stack_index s \<le> length (stack s)"
    and "valid_reference (heap s) (stack s ! (stack_index s - 1))"
  shows "\<exists>s'. op_arraylength s = Inr (Running s')"
  using assms op_arraylength_result [OF assms(1,2) heap_get_valid [OF assms(3)]]
  by (simp add: valid_reference_def)

lemma valid_element_index:
  assumes "valid_element h r i"
  shows "valid_reference h r" "0 \<le> sint i" "sint i + 1 < int (length (h ! nat (sint r)))"
    "sint i < 2 ^ 31 - 1"
proof -
  let ?L = "h ! nat (sint r) ! 0"
  from assms show "valid_reference h r" "0 \<le> sint i"
    by (simp_all add: valid_element_def)
  from assms have i: "sint i < sint ?L" and L: "sint ?L < int (length (h ! nat (sint r)))"
    by (simp_all add: valid_element_def)
  then show "sint i + 1 < int (length (h ! nat (sint r)))" by simp
  from sint_lt [of ?L] have "sint ?L < 2 ^ 31" by simp
  with i show "sint i < 2 ^ 31 - 1" by simp
qed

lemma iaload_completes:
  assumes "2 \<le> stack_index s" "stack_index s \<le> length (stack s)"
    and "valid_element (heap s) (stack s ! (stack_index s - 2)) (stack s ! (stack_index s - 1))"
  shows "\<exists>s'. op_iaload s = Inr (Running s')"
  using op_iaload_result [OF assms(1,2) heap_get_valid [OF valid_element_index(1) [OF assms(3)]]
      refl valid_element_index(2-4) [OF assms(3)]]
  by simp

lemma iastore_completes:
  assumes "3 \<le> stack_index s" "stack_index s \<le> length (stack s)"
    and "valid_element (heap s) (stack s ! (stack_index s - 3)) (stack s ! (stack_index s - 2))"
  shows "\<exists>s'. op_iastore s = Inr (Running s')"
  using op_iastore_result [OF assms(1,2) refl
      heap_get_valid [OF valid_element_index(1) [OF assms(3)]]
      refl valid_element_index(2-4) [OF assms(3)]]
  by simp


text \<open>The entries of the spec-side tables.\<close>

lemma operand_bytes_simps:
  "operand_bytes i_bipush = 1" "operand_bytes i_sipush = 2" "operand_bytes i_ldc = 1"
  "operand_bytes i_iload = 1" "operand_bytes i_aload = 1" "operand_bytes i_istore = 1"
  "operand_bytes i_astore = 1" "operand_bytes i_iinc = 2" "operand_bytes i_goto = 2"
  "operand_bytes i_ifeq = 2" "operand_bytes i_ifne = 2" "operand_bytes i_iflt = 2"
  "operand_bytes i_ifge = 2" "operand_bytes i_ifgt = 2" "operand_bytes i_ifle = 2"
  "operand_bytes i_if_icmpeq = 2" "operand_bytes i_if_icmpne = 2"
  "operand_bytes i_if_icmplt = 2" "operand_bytes i_if_icmpge = 2"
  "operand_bytes i_if_icmpgt = 2" "operand_bytes i_if_icmple = 2"
  "operand_bytes i_invokestatic = 2"
  by (simp_all add: operand_bytes_def opcode_defs)

lemma spec_pops_simps:
  "spec_pops i_istore = 1" "spec_pops i_astore = 1" "spec_pops i_ineg = 1"
  "spec_pops i_dup = 1" "spec_pops i_ifeq = 1" "spec_pops i_ifne = 1" "spec_pops i_iflt = 1"
  "spec_pops i_ifge = 1" "spec_pops i_ifgt = 1" "spec_pops i_ifle = 1"
  "spec_pops i_invokevirtual = 1" "spec_pops i_newarray = 1" "spec_pops i_arraylength = 1"
  "spec_pops i_iadd = 2" "spec_pops i_isub = 2" "spec_pops i_imul = 2" "spec_pops i_idiv = 2"
  "spec_pops i_irem = 2" "spec_pops i_iand = 2" "spec_pops i_ior = 2" "spec_pops i_ixor = 2"
  "spec_pops i_ishl = 2" "spec_pops i_ishr = 2" "spec_pops i_iushr = 2"
  "spec_pops i_if_icmpeq = 2" "spec_pops i_if_icmpne = 2" "spec_pops i_if_icmplt = 2"
  "spec_pops i_if_icmpge = 2" "spec_pops i_if_icmpgt = 2" "spec_pops i_if_icmple = 2"
  "spec_pops i_iaload = 2" "spec_pops i_iastore = 3"
  by (simp_all add: spec_pops_def opcode_defs)

lemma spec_pops_store_n:
  "i_istore_0 \<le> x \<Longrightarrow> x \<le> i_istore_3 \<Longrightarrow> spec_pops x = 1"
  "i_astore_0 \<le> x \<Longrightarrow> x \<le> i_astore_3 \<Longrightarrow> spec_pops x = 1"
  by (simp_all add: spec_pops_def)

lemma local_slot_simps:
  "code m ! pc s = i_iload \<Longrightarrow> local_slot m s = Some (unat (code m ! (pc s + 1)))"
  "code m ! pc s = i_aload \<Longrightarrow> local_slot m s = Some (unat (code m ! (pc s + 1)))"
  "code m ! pc s = i_istore \<Longrightarrow> local_slot m s = Some (unat (code m ! (pc s + 1)))"
  "code m ! pc s = i_astore \<Longrightarrow> local_slot m s = Some (unat (code m ! (pc s + 1)))"
  "code m ! pc s = i_iinc \<Longrightarrow> local_slot m s = Some (unat (code m ! (pc s + 1)))"
  by (simp_all add: local_slot_def)

lemma local_slot_iload_n:
  assumes "i_iload_0 \<le> code m ! pc s" "code m ! pc s \<le> i_iload_3"
  shows "local_slot m s = Some (unat (code m ! pc s) - unat i_iload_0)"
proof -
  from assms have "code m ! pc s \<in> {0x1a, 0x1b, 0x1c, 0x1d}"
    using four_range [of i_iload_0 "code m ! pc s"] by (simp add: opcode_defs)
  then show ?thesis
    by (elim insertE emptyE) (simp_all add: local_slot_def opcode_defs)
qed

lemma local_slot_aload_n:
  assumes "i_aload_0 \<le> code m ! pc s" "code m ! pc s \<le> i_aload_3"
  shows "local_slot m s = Some (unat (code m ! pc s) - unat i_aload_0)"
proof -
  from assms have "code m ! pc s \<in> {0x2a, 0x2b, 0x2c, 0x2d}"
    using four_range [of i_aload_0 "code m ! pc s"] by (simp add: opcode_defs)
  then show ?thesis
    by (elim insertE emptyE) (simp_all add: local_slot_def opcode_defs)
qed

lemma local_slot_istore_n:
  assumes "i_istore_0 \<le> code m ! pc s" "code m ! pc s \<le> i_istore_3"
  shows "local_slot m s = Some (unat (code m ! pc s) - unat i_istore_0)"
proof -
  from assms have "code m ! pc s \<in> {0x3b, 0x3c, 0x3d, 0x3e}"
    using four_range [of i_istore_0 "code m ! pc s"] by (simp add: opcode_defs)
  then show ?thesis
    by (elim insertE emptyE) (simp_all add: local_slot_def opcode_defs)
qed

lemma local_slot_astore_n:
  assumes "i_astore_0 \<le> code m ! pc s" "code m ! pc s \<le> i_astore_3"
  shows "local_slot m s = Some (unat (code m ! pc s) - unat i_astore_0)"
proof -
  from assms have "code m ! pc s \<in> {0x4b, 0x4c, 0x4d, 0x4e}"
    using four_range [of i_astore_0 "code m ! pc s"] by (simp add: opcode_defs)
  then show ?thesis
    by (elim insertE emptyE) (simp_all add: local_slot_def opcode_defs)
qed

lemma slot_offset:
  fixes x b :: u1
  assumes "b \<le> x" "unat x - unat b < n"
  shows "0 \<le> uint x - uint b" "uint x - uint b < int n"
proof -
  from assms(1) have "unat b \<le> unat x" by (simp add: word_le_nat_alt)
  with assms(2) show "0 \<le> uint x - uint b" "uint x - uint b < int n"
    unfolding uint_nat by linarith+
qed


text \<open>At a well-formed instruction of the table, the loop body completes.\<close>

lemma step_completes:
  assumes ok: "frame_ok m s" and wf: "well_formed_at cls m s"
    and d: "spec_stack_delta (code m ! pc s) = Some d"
  shows "\<exists>s'. step cls m s = Inr (Running s')"
proof -
  let ?x = "code m ! pc s"
  from ok have len: "length (stack s) = max_stack m" and le: "stack_index s \<le> length (stack s)"
    by (simp_all add: frame_ok_def)
  note bytes = wf_bytes [OF wf] and pops = wf_pops [OF wf] and room = wf_room [OF wf d]
  have push_room: "stack_index s < length (stack s)" if "d = 1"
    using that room len by simp
  from spec_stack_delta_cases [OF d] show ?thesis
  proof (elim disjE conjE)
    assume iconst: "i_iconst_m1 \<le> ?x" "?x \<le> i_iconst_5" "d = 1"
    with push_room show ?thesis by (simp add: step_iconst push_completes)
  next
    assume push: "?x \<in> {i_bipush, i_sipush, i_ldc, i_iload, i_aload, i_dup}" "d = 1"
    note room = push_room [OF push(2)]
    from push(1) show ?thesis
    proof (elim insertE emptyE)
      assume x: "?x = i_bipush"
      with bytes room show ?thesis
        by (simp add: step_more operand_bytes_simps push_completes)
    next
      assume x: "?x = i_sipush"
      with bytes room show ?thesis
        by (simp add: step_more operand_bytes_simps push_completes)
    next
      assume x: "?x = i_ldc"
      with bytes room wf_ldc [OF wf x] show ?thesis
        by (simp add: step_more operand_bytes_simps ldc_completes)
    next
      assume x: "?x = i_iload"
      with bytes room wf_local [OF wf local_slot_simps(1) [OF x]] show ?thesis
        by (simp add: step_more operand_bytes_simps push_completes)
    next
      assume x: "?x = i_aload"
      with bytes room wf_local [OF wf local_slot_simps(2) [OF x]] show ?thesis
        by (simp add: step_more operand_bytes_simps push_completes)
    next
      assume x: "?x = i_dup"
      with pops room show ?thesis
        by (simp add: step_more spec_pops_simps push_completes)
    qed
  next
    assume iload_n: "i_iload_0 \<le> ?x" "?x \<le> i_iload_3" "d = 1"
    note slot = slot_offset [OF iload_n(1) wf_local [OF wf local_slot_iload_n [OF iload_n(1,2)]]]
    from push_room [OF iload_n(3)] slot show ?thesis
      by (simp add: step_iload_n [OF iload_n(1,2)] push_completes)
  next
    assume aload_n: "i_aload_0 \<le> ?x" "?x \<le> i_aload_3" "d = 1"
    note slot = slot_offset [OF aload_n(1) wf_local [OF wf local_slot_aload_n [OF aload_n(1,2)]]]
    from push_room [OF aload_n(3)] slot show ?thesis
      by (simp add: step_aload_n [OF aload_n(1,2)] push_completes)
  next
    assume pop: "?x \<in> {i_istore, i_astore, i_iadd, i_isub, i_imul, i_idiv, i_irem, i_iand,
               i_ior, i_ixor, i_ishl, i_ishr, i_iushr, i_ifeq, i_ifne, i_iflt, i_ifge,
               i_ifgt, i_ifle, i_invokevirtual, i_iaload}" "d = - 1"
    from pop(1) show ?thesis
    proof (elim insertE emptyE)
      assume x: "?x = i_istore"
      with bytes pops le wf_local [OF wf local_slot_simps(3) [OF x]] show ?thesis
        by (simp add: step_more operand_bytes_simps spec_pops_simps pop_completes)
    next
      assume x: "?x = i_astore"
      with bytes pops le wf_local [OF wf local_slot_simps(4) [OF x]] show ?thesis
        by (simp add: step_more operand_bytes_simps spec_pops_simps pop_completes)
    next
      assume x: "?x = i_iadd"
      with pops le show ?thesis by (simp add: step_more spec_pops_simps pop2_completes)
    next
      assume x: "?x = i_isub"
      with pops le show ?thesis by (simp add: step_more spec_pops_simps pop2_completes)
    next
      assume x: "?x = i_imul"
      with pops le show ?thesis by (simp add: step_more spec_pops_simps pop2_completes)
    next
      assume x: "?x = i_idiv"
      with pops le wf_divide [OF wf disjI1 [OF x]] show ?thesis
        by (simp add: step_idiv spec_pops_simps divide_completes)
    next
      assume x: "?x = i_irem"
      with pops le wf_divide [OF wf disjI2 [OF x]] show ?thesis
        by (simp add: step_irem spec_pops_simps divide_completes)
    next
      assume x: "?x = i_iand"
      with pops le show ?thesis by (simp add: step_more spec_pops_simps pop2_completes)
    next
      assume x: "?x = i_ior"
      with pops le show ?thesis by (simp add: step_more spec_pops_simps pop2_completes)
    next
      assume x: "?x = i_ixor"
      with pops le show ?thesis by (simp add: step_more spec_pops_simps pop2_completes)
    next
      assume x: "?x = i_ishl"
      with pops le show ?thesis by (simp add: step_ishl spec_pops_simps pop2_completes)
    next
      assume x: "?x = i_ishr"
      with pops le show ?thesis by (simp add: step_ishr spec_pops_simps pop2_completes)
    next
      assume x: "?x = i_iushr"
      with pops le show ?thesis by (simp add: step_iushr spec_pops_simps pop2_completes)
    next
      assume x: "?x = i_ifeq"
      with bytes pops le show ?thesis
        by (simp add: step_if operand_bytes_simps spec_pops_simps pop_completes)
    next
      assume x: "?x = i_ifne"
      with bytes pops le show ?thesis
        by (simp add: step_if operand_bytes_simps spec_pops_simps pop_completes)
    next
      assume x: "?x = i_iflt"
      with bytes pops le show ?thesis
        by (simp add: step_if operand_bytes_simps spec_pops_simps pop_completes)
    next
      assume x: "?x = i_ifge"
      with bytes pops le show ?thesis
        by (simp add: step_if operand_bytes_simps spec_pops_simps pop_completes)
    next
      assume x: "?x = i_ifgt"
      with bytes pops le show ?thesis
        by (simp add: step_if operand_bytes_simps spec_pops_simps pop_completes)
    next
      assume x: "?x = i_ifle"
      with bytes pops le show ?thesis
        by (simp add: step_if operand_bytes_simps spec_pops_simps pop_completes)
    next
      assume x: "?x = i_invokevirtual"
      with pops le show ?thesis
        by (simp add: step_more spec_pops_simps pop_completes)
    next
      assume x: "?x = i_iaload"
      with pops le wf_iaload [OF wf x] show ?thesis
        by (simp add: step_more spec_pops_simps iaload_completes)
    qed
  next
    assume istore_n: "i_istore_0 \<le> ?x" "?x \<le> i_istore_3" "d = - 1"
    note slot = slot_offset [OF istore_n(1)
        wf_local [OF wf local_slot_istore_n [OF istore_n(1,2)]]]
    from pops le slot show ?thesis
      by (simp add: step_istore_n [OF istore_n(1,2)] spec_pops_store_n(1) [OF istore_n(1,2)]
          pop_completes)
  next
    assume astore_n: "i_astore_0 \<le> ?x" "?x \<le> i_astore_3" "d = - 1"
    note slot = slot_offset [OF astore_n(1)
        wf_local [OF wf local_slot_astore_n [OF astore_n(1,2)]]]
    from pops le slot show ?thesis
      by (simp add: step_astore_n [OF astore_n(1,2)] spec_pops_store_n(2) [OF astore_n(1,2)]
          pop_completes)
  next
    assume keep: "?x \<in> {i_iinc, i_ineg, i_nop, i_goto, i_getstatic, i_newarray,
               i_arraylength}" "d = 0"
    from keep(1) show ?thesis
    proof (elim insertE emptyE)
      assume x: "?x = i_iinc"
      with bytes wf_local [OF wf local_slot_simps(5) [OF x]] show ?thesis
        by (simp add: step_more operand_bytes_simps keep_completes)
    next
      assume x: "?x = i_ineg"
      with pops le show ?thesis by (simp add: step_more spec_pops_simps pop_completes)
    next
      assume x: "?x = i_nop"
      then show ?thesis by (simp add: step_nop keep_completes)
    next
      assume x: "?x = i_goto"
      with bytes show ?thesis by (simp add: step_goto operand_bytes_simps keep_completes)
    next
      assume x: "?x = i_getstatic"
      then show ?thesis by (simp add: step_more keep_completes)
    next
      assume x: "?x = i_newarray"
      with pops le wf_newarray [OF wf x] show ?thesis
        by (simp add: step_more spec_pops_simps newarray_completes)
    next
      assume x: "?x = i_arraylength"
      with pops le wf_arraylength [OF wf x] show ?thesis
        by (simp add: step_more spec_pops_simps arraylength_completes)
    qed
  next
    assume icmp: "?x \<in> {i_if_icmpeq, i_if_icmpne, i_if_icmplt, i_if_icmpge, i_if_icmpgt,
               i_if_icmple}" "d = - 2"
    from icmp(1) bytes pops le show ?thesis
      by (elim insertE emptyE)
        (simp_all add: step_if_icmp operand_bytes_simps spec_pops_simps pop2_completes)
  next
    assume iastore: "?x = i_iastore" "d = - 3"
    from iastore(1) pops le wf_iastore [OF wf iastore(1)] show ?thesis
      by (simp add: step_more spec_pops_simps iastore_completes)
  qed
qed


lemma invokestatic_completes:
  assumes "max_stack m < 2 ^ 64" and ok: "frame_ok m s" and wf: "well_formed_at cls m s"
    and x: "code m ! pc s = i_invokestatic"
    and callee: "callee = find_method_from_index cls
           (word_of_int (spec_s16 (code m ! (pc s + 1)) (code m ! (pc s + 2))))"
  shows "step cls m s =
    Inr (Invoke callee
           (take (get_number_of_parameters callee)
              (drop (stack_index s - get_number_of_parameters callee) (stack s))
            @ replicate (max_locals callee - get_number_of_parameters callee) 0)
           (s\<lparr>stack_index := stack_index s - get_number_of_parameters callee\<rparr>))"
    and "get_number_of_parameters callee \<le> stack_index s"
proof -
  from ok have len: "length (stack s) = max_stack m" and le: "stack_index s \<le> length (stack s)"
    by (simp_all add: frame_ok_def)
  from wf_bytes [OF wf] x have bytes: "pc s + 2 < code_length m"
    by (simp add: operand_bytes_simps)
  note P = wf_invokestatic [OF wf x callee]
  from le len assms(1) have si: "stack_index s < 2 ^ 64" by simp
  from callee have callee': "callee = find_method_from_index cls
      (word_of_int (int16_operand (code m ! (pc s + 1)) (code m ! (pc s + 2))))"
    by (simp only: int16_operand_eq_s16)
  from P show "get_number_of_parameters callee \<le> stack_index s" by simp
  from P have "op_invokestatic cls m s =
    Inr (Invoke callee
           (take (get_number_of_parameters callee)
              (drop (stack_index s - get_number_of_parameters callee) (stack s))
            @ replicate (max_locals callee - get_number_of_parameters callee) 0)
           (s\<lparr>stack_index := stack_index s - get_number_of_parameters callee\<rparr>))"
    by (intro op_invokestatic_result [OF bytes callee' refl _ _ le si]) simp_all
  with x show "step cls m s =
    Inr (Invoke callee
           (take (get_number_of_parameters callee)
              (drop (stack_index s - get_number_of_parameters callee) (stack s))
            @ replicate (max_locals callee - get_number_of_parameters callee) 0)
           (s\<lparr>stack_index := stack_index s - get_number_of_parameters callee\<rparr>))"
    by (simp add: step_more)
qed

lemma invoke_return_completes:
  assumes "frame_ok m s1" and "has_value val \<longrightarrow> stack_index s1 < max_stack m"
  shows "\<exists>s2. invoke_return s1 val h out = Inr s2 \<and> frame_ok m s2
    \<and> int (stack_index s2) = int (stack_index s1) + (if has_value val then 1 else 0)"
  using assms by (auto simp: invoke_return_def frame_ok_def)

text \<open>
  C8. In a frame whose stack block has \<open>max_stack\<close> slots and holds a depth within it,
  starting from the empty stack of \<open>execute\<close>, every instruction of the spec's table that
  is well-formed where it stands (its operands on the stack, room for its result, its
  operand bytes, local variable, constant, divisor and array operands valid) completes,
  the depth after it lies in \<open>[0, max_stack]\<close>, and the depth differs from the depth
  before by the entry of the table: \<open>iadd\<close> pops two and pushes one, \<open>iastore\<close> pops
  three, \<open>dup\<close> pushes one, and so on for every instruction of the table. \<open>invokestatic\<close>
  completes with the depth lowered by the callee's parameter count, and the return of the
  callee raises it by one if a value comes back.
\<close>

theorem operand_stack_depth_and_deltas:
  assumes "max_stack m < 2 ^ 64" and "frame_ok m s" and "well_formed_at cls m s"
  shows
    "frame_ok m (initial_state m ls h out)
     \<and> (spec_stack_delta (code m ! pc s) = Some d \<longrightarrow>
          (\<exists>s'. step cls m s = Inr (Running s') \<and> frame_ok m s'
                \<and> int (stack_index s') = int (stack_index s) + d))
     \<and> (code m ! pc s = i_iadd \<longrightarrow>
          (\<exists>s'. step cls m s = Inr (Running s') \<and> frame_ok m s'
                \<and> 2 \<le> stack_index s \<and> stack_index s' = stack_index s - 2 + 1))
     \<and> (code m ! pc s = i_iastore \<longrightarrow>
          (\<exists>s'. step cls m s = Inr (Running s') \<and> frame_ok m s'
                \<and> 3 \<le> stack_index s \<and> stack_index s' = stack_index s - 3))
     \<and> (code m ! pc s = i_dup \<longrightarrow>
          (\<exists>s'. step cls m s = Inr (Running s') \<and> frame_ok m s'
                \<and> stack_index s' = stack_index s + 1))
     \<and> (code m ! pc s = i_invokestatic
          \<and> callee = find_method_from_index cls
                (word_of_int (spec_s16 (code m ! (pc s + 1)) (code m ! (pc s + 2)))) \<longrightarrow>
          (\<exists>lt s1. step cls m s = Inr (Invoke callee lt s1) \<and> frame_ok m s1
             \<and> get_number_of_parameters callee \<le> stack_index s
             \<and> stack_index s1 = stack_index s - get_number_of_parameters callee
             \<and> (\<forall>val h' out'. (has_value val \<longrightarrow> stack_index s1 < max_stack m) \<longrightarrow>
                  (\<exists>s2. invoke_return s1 val h' out' = Inr s2 \<and> frame_ok m s2
                     \<and> int (stack_index s2) =
                         int (stack_index s1) + (if has_value val then 1 else 0)))))"
proof -
  from assms(2) have len: "length (stack s) = max_stack m"
    and le: "stack_index s \<le> length (stack s)"
    by (simp_all add: frame_ok_def)
  have table: "\<exists>s'. step cls m s = Inr (Running s') \<and> frame_ok m s'
                \<and> int (stack_index s') = int (stack_index s) + e"
    if e: "spec_stack_delta (code m ! pc s) = Some e" for e
  proof -
    from step_completes [OF assms(2,3) e] obtain s' where s': "step cls m s = Inr (Running s')"
      by blast
    from step_depth [OF le e, of cls] s' have "length (stack s') = length (stack s)
        \<and> int (stack_index s') = int (stack_index s) + e
        \<and> stack_index s' \<le> length (stack s')"
      by simp
    with s' len show ?thesis by (auto simp: frame_ok_def)
  qed
  have deltas: "spec_stack_delta i_iadd = Some (- 1)" "spec_stack_delta i_iastore = Some (- 3)"
    "spec_stack_delta i_dup = Some 1"
    by (simp_all add: spec_stack_delta_def opcode_defs)
  note pops = wf_pops [OF assms(3)]
  show ?thesis
  proof (intro conjI impI)
    show "frame_ok m (initial_state m ls h out)"
      by (simp add: frame_ok_def initial_state_def)
  next
    assume "spec_stack_delta (code m ! pc s) = Some d"
    then show "\<exists>s'. step cls m s = Inr (Running s') \<and> frame_ok m s'
                \<and> int (stack_index s') = int (stack_index s) + d"
      by (rule table)
  next
    assume x: "code m ! pc s = i_iadd"
    with pops have "2 \<le> stack_index s" by (simp add: spec_pops_simps)
    moreover from x table [of "- 1"] obtain s' where
      "step cls m s = Inr (Running s') \<and> frame_ok m s'
         \<and> int (stack_index s') = int (stack_index s) + (- 1)"
      by (auto simp: deltas)
    ultimately show "\<exists>s'. step cls m s = Inr (Running s') \<and> frame_ok m s'
                \<and> 2 \<le> stack_index s \<and> stack_index s' = stack_index s - 2 + 1"
      by (intro exI [of _ s']) auto
  next
    assume x: "code m ! pc s = i_iastore"
    with pops have "3 \<le> stack_index s" by (simp add: spec_pops_simps)
    moreover from x table [of "- 3"] obtain s' where
      "step cls m s = Inr (Running s') \<and> frame_ok m s'
         \<and> int (stack_index s') = int (stack_index s) + (- 3)"
      by (auto simp: deltas)
    ultimately show "\<exists>s'. step cls m s = Inr (Running s') \<and> frame_ok m s'
                \<and> 3 \<le> stack_index s \<and> stack_index s' = stack_index s - 3"
      by (intro exI [of _ s']) auto
  next
    assume x: "code m ! pc s = i_dup"
    with table [of 1] obtain s' where
      "step cls m s = Inr (Running s') \<and> frame_ok m s'
         \<and> int (stack_index s') = int (stack_index s) + 1"
      by (auto simp: deltas)
    then show "\<exists>s'. step cls m s = Inr (Running s') \<and> frame_ok m s'
                \<and> stack_index s' = stack_index s + 1"
      by (intro exI [of _ s']) auto
  next
    assume a: "code m ! pc s = i_invokestatic
          \<and> callee = find_method_from_index cls
                (word_of_int (spec_s16 (code m ! (pc s + 1)) (code m ! (pc s + 2))))"
    let ?P = "get_number_of_parameters callee"
    let ?lt = "take ?P (drop (stack_index s - ?P) (stack s)) @ replicate (max_locals callee - ?P) 0"
    let ?s1 = "s\<lparr>stack_index := stack_index s - ?P\<rparr>"
    from a have x: "code m ! pc s = i_invokestatic"
      and c: "callee = find_method_from_index cls
                (word_of_int (spec_s16 (code m ! (pc s + 1)) (code m ! (pc s + 2))))"
      by simp_all
    note call = invokestatic_completes [OF assms x c]
    from len le have ok1: "frame_ok m ?s1" by (simp add: frame_ok_def)
    have ret: "\<forall>val h' out'. (has_value val \<longrightarrow> stack_index ?s1 < max_stack m) \<longrightarrow>
                  (\<exists>s2. invoke_return ?s1 val h' out' = Inr s2 \<and> frame_ok m s2
                     \<and> int (stack_index s2) =
                         int (stack_index ?s1) + (if has_value val then 1 else 0))"
      using invoke_return_completes [OF ok1] by blast
    from call ok1 ret show "\<exists>lt s1. step cls m s = Inr (Invoke callee lt s1) \<and> frame_ok m s1
             \<and> get_number_of_parameters callee \<le> stack_index s
             \<and> stack_index s1 = stack_index s - get_number_of_parameters callee
             \<and> (\<forall>val h' out'. (has_value val \<longrightarrow> stack_index s1 < max_stack m) \<longrightarrow>
                  (\<exists>s2. invoke_return s1 val h' out' = Inr s2 \<and> frame_ok m s2
                     \<and> int (stack_index s2) =
                         int (stack_index s1) + (if has_value val then 1 else 0)))"
      by (intro exI [of _ ?lt] exI [of _ ?s1]) simp
  qed
qed

theorem operand_stack_depth_and_deltas_witness:
  "max_stack (one_opcode i_iadd) < 2 ^ 64
   \<and> frame_ok (one_opcode i_iadd) (two_on_stack 3 4)
   \<and> well_formed_at example_class (one_opcode i_iadd) (two_on_stack 3 4)
   \<and> spec_stack_delta (code (one_opcode i_iadd) ! pc (two_on_stack 3 4)) = Some (- 1)
   \<and> step example_class (one_opcode i_iadd) (two_on_stack 3 4) =
       Inr (Running ((two_on_stack 7 4)\<lparr>pc := 1, stack_index := 1\<rparr>))
   \<and> frame_ok (one_opcode i_iadd) ((two_on_stack 7 4)\<lparr>pc := 1, stack_index := 1\<rparr>)
   \<and> int (stack_index ((two_on_stack 7 4)\<lparr>pc := 1, stack_index := 1\<rparr>)) =
       int (stack_index (two_on_stack 3 4)) + (- 1)
   \<and> frame_ok (one_opcode i_dup) ((two_on_stack 7 0)\<lparr>stack_index := 1\<rparr>)
   \<and> well_formed_at example_class (one_opcode i_dup) ((two_on_stack 7 0)\<lparr>stack_index := 1\<rparr>)
   \<and> step example_class (one_opcode i_dup) ((two_on_stack 7 0)\<lparr>stack_index := 1\<rparr>) =
       Inr (Running ((two_on_stack 7 7)\<lparr>pc := 1\<rparr>))
   \<and> frame_ok (one_opcode i_dup) ((two_on_stack 7 7)\<lparr>pc := 1\<rparr>)
   \<and> frame_ok store_element (frame_with [0, 1, 30] [[2, 0, 0]])
   \<and> well_formed_at example_class store_element (frame_with [0, 1, 30] [[2, 0, 0]])
   \<and> step example_class store_element (frame_with [0, 1, 30] [[2, 0, 0]]) =
       Inr (Running ((frame_with [0, 1, 30] [[2, 0, 30]])\<lparr>stack_index := 0, pc := 1\<rparr>))
   \<and> frame_ok store_element ((frame_with [0, 1, 30] [[2, 0, 30]])\<lparr>stack_index := 0, pc := 1\<rparr>)
   \<and> max_stack call_first_parameter < 2 ^ 64
   \<and> frame_ok call_first_parameter ((two_on_stack 1 2)\<lparr>pc := 2\<rparr>)
   \<and> well_formed_at example_class call_first_parameter ((two_on_stack 1 2)\<lparr>pc := 2\<rparr>)
   \<and> code call_first_parameter ! pc ((two_on_stack 1 2)\<lparr>pc := 2\<rparr>) = i_invokestatic
   \<and> step example_class call_first_parameter ((two_on_stack 1 2)\<lparr>pc := 2\<rparr>) =
       Inr (Invoke first_parameter [1, 2]
              ((two_on_stack 1 2)\<lparr>pc := 2, stack_index := 0\<rparr>))
   \<and> frame_ok call_first_parameter ((two_on_stack 1 2)\<lparr>pc := 2, stack_index := 0\<rparr>)
   \<and> invoke_return ((two_on_stack 1 2)\<lparr>pc := 2, stack_index := 0\<rparr>)
         \<lparr>has_value = True, value = 1\<rparr> [] [] =
       Inr ((two_on_stack 1 2)\<lparr>pc := 5, stack_index := 1\<rparr>)
   \<and> frame_ok call_first_parameter ((two_on_stack 1 2)\<lparr>pc := 5, stack_index := 1\<rparr>)"
proof -
  let ?add = "one_opcode i_iadd" and ?dup = "one_opcode i_dup"
  let ?a = "two_on_stack 3 4" and ?a' = "(two_on_stack 7 4)\<lparr>pc := 1, stack_index := 1\<rparr>"
  let ?b = "(two_on_stack 7 0)\<lparr>stack_index := 1\<rparr>" and ?b' = "(two_on_stack 7 7)\<lparr>pc := 1\<rparr>"
  let ?c = "frame_with [0, 1, 30] [[2, 0, 0]]"
  let ?c' = "(frame_with [0, 1, 30] [[2, 0, 30]])\<lparr>stack_index := 0, pc := 1\<rparr>"
  let ?s = "(two_on_stack 1 2)\<lparr>pc := 2\<rparr>"
  let ?s1 = "(two_on_stack 1 2)\<lparr>pc := 2, stack_index := 0\<rparr>"
  let ?s2 = "(two_on_stack 1 2)\<lparr>pc := 5, stack_index := 1\<rparr>"
  let ?one = "\<lparr>has_value = True, value = 1 :: int32\<rparr>"
  have small: "max_stack ?add < 2 ^ 64" "max_stack ?dup < 2 ^ 64"
    "max_stack store_element < 2 ^ 64" "max_stack call_first_parameter < 2 ^ 64"
    by (simp_all add: one_opcode_def store_element_def call_first_parameter_def)
  have ok: "frame_ok ?add ?a" "frame_ok ?dup ?b" "frame_ok store_element ?c"
    "frame_ok call_first_parameter ?s"
    by code_simp+
  have wf: "well_formed_at example_class ?add ?a" "well_formed_at example_class ?dup ?b"
    "well_formed_at example_class store_element ?c"
    "well_formed_at example_class call_first_parameter ?s"
    by (simp_all add: well_formed_at_def Let_def one_opcode_def store_element_def
        call_first_parameter_def two_on_stack_def frame_with_def code_length_def
        operand_bytes_def spec_pops_def spec_stack_delta_def local_slot_def opcode_defs
        valid_element_def valid_reference_def example_class_def first_parameter_def
        get_number_of_parameters_def)
  have op: "code ?add ! pc ?a = i_iadd" "code ?dup ! pc ?b = i_dup"
    "code store_element ! pc ?c = i_iastore"
    "code call_first_parameter ! pc ?s = i_invokestatic"
    by code_simp+
  have d: "spec_stack_delta (code ?add ! pc ?a) = Some (- 1)"
    by code_simp
  have run: "step example_class ?add ?a = Inr (Running ?a')"
    "step example_class ?dup ?b = Inr (Running ?b')"
    "step example_class store_element ?c = Inr (Running ?c')"
    "step example_class call_first_parameter ?s = Inr (Invoke first_parameter [1, 2] ?s1)"
    "invoke_return ?s1 ?one [] [] = Inr ?s2"
    by code_simp+
  have callee: "first_parameter = find_method_from_index example_class
      (word_of_int (spec_s16 (code call_first_parameter ! (pc ?s + 1))
                             (code call_first_parameter ! (pc ?s + 2))))"
    by (simp add: example_class_def)
  note th_add = operand_stack_depth_and_deltas [OF small(1) ok(1) wf(1)]
  note th_dup = operand_stack_depth_and_deltas [OF small(2) ok(2) wf(2)]
  note th_store = operand_stack_depth_and_deltas [OF small(3) ok(3) wf(3)]
  note th_call = operand_stack_depth_and_deltas [OF small(4) ok(4) wf(4)]
  from d th_add [where d = "- 1"] obtain s' where
    "step example_class ?add ?a = Inr (Running s')" "frame_ok ?add s'"
    "int (stack_index s') = int (stack_index ?a) + (- 1)"
    by blast
  with run(1) have r_add: "frame_ok ?add ?a'"
    "int (stack_index ?a') = int (stack_index ?a) + (- 1)"
    by simp_all
  from op(2) th_dup obtain s' where
    "step example_class ?dup ?b = Inr (Running s')" "frame_ok ?dup s'"
    by blast
  with run(2) have r_dup: "frame_ok ?dup ?b'" by simp
  from op(3) th_store obtain s' where
    "step example_class store_element ?c = Inr (Running s')" "frame_ok store_element s'"
    by blast
  with run(3) have r_store: "frame_ok store_element ?c'" by simp
  from op(4) callee th_call [where callee = first_parameter] obtain lt s1 where
    call: "step example_class call_first_parameter ?s = Inr (Invoke first_parameter lt s1)"
    and ok1: "frame_ok call_first_parameter s1"
    and ret: "\<forall>val h' out'.
        (has_value val \<longrightarrow> stack_index s1 < max_stack call_first_parameter) \<longrightarrow>
        (\<exists>s2. invoke_return s1 val h' out' = Inr s2 \<and> frame_ok call_first_parameter s2
           \<and> int (stack_index s2) = int (stack_index s1) + (if has_value val then 1 else 0))"
    by blast
  from call run(4) have s1: "s1 = ?s1" by simp
  from ok1 have r_call: "frame_ok call_first_parameter ?s1" unfolding s1 .
  have "has_value ?one \<longrightarrow> stack_index ?s1 < max_stack call_first_parameter"
    by (simp add: call_first_parameter_def two_on_stack_def)
  with ret obtain s2 where "invoke_return ?s1 ?one [] [] = Inr s2"
    "frame_ok call_first_parameter s2"
    unfolding s1 by blast
  with run(5) have r_ret: "frame_ok call_first_parameter ?s2" by simp
  from small(1,4) ok wf d op(4) run r_add r_dup r_store r_call r_ret show ?thesis
    by blast
qed

end
